theory Spec2Isabelle
  imports Complex_Main
begin

section \<open>Numbers and strings of the host language\<close>

text \<open>
  The voxel builder (\<open>src/voxel-builder\<close>) is TypeScript: every number is an IEEE double.
  The model uses exact arithmetic: \<open>int\<close> for grid indices, \<open>real\<close> for continuous
  quantities. The two infinities and NaN appear where the code itself produces them (the
  vertical extent of \<open>VoxelGrid\<close> starts at \<open>Infinity\<close>/\<open>-Infinity\<close>, \<open>parseInt\<close> may
  return NaN), as the type \<open>jsnum\<close>; rounding error and signed zero are not modelled.
\<close>
datatype jsnum = NaN | NegInfinity | Num real | PosInfinity

text \<open>The comparison \<open><\<close> of the language: false as soon as one side is NaN.\<close>
fun js_lt :: "jsnum \<Rightarrow> jsnum \<Rightarrow> bool" where
  "js_lt (Num a) (Num b) = (a < b)"
| "js_lt NegInfinity (Num b) = True"
| "js_lt NegInfinity PosInfinity = True"
| "js_lt (Num a) PosInfinity = True"
| "js_lt _ _ = False"

subsection \<open>Number to string, \<open>split\<close> and \<open>parseInt\<close>\<close>

text \<open>
  \<open>voxelKey\<close> (\<open>types.ts\<close>) builds the key \<open>`${gx},${gy},${gz}`\<close>. For an integral number
  of magnitude below \<open>10^21\<close> the conversion to a string is the plain decimal numeral with
  a leading minus sign for negatives; \<open>show_int\<close> is that conversion, on all of \<open>int\<close>.
  \<open>findIndex\<close> is \<open>Array.prototype.findIndex\<close> (also \<open>indexOf\<close>), with \<open>None\<close> for \<open>-1\<close>.
\<close>
definition digit_char :: "nat \<Rightarrow> char" where
  "digit_char d =
     (if d = 0 then CHR ''0'' else if d = 1 then CHR ''1'' else if d = 2 then CHR ''2''
      else if d = 3 then CHR ''3'' else if d = 4 then CHR ''4'' else if d = 5 then CHR ''5''
      else if d = 6 then CHR ''6'' else if d = 7 then CHR ''7'' else if d = 8 then CHR ''8''
      else CHR ''9'')"

fun findIndex :: "('a \<Rightarrow> bool) \<Rightarrow> 'a list \<Rightarrow> nat option" where
  "findIndex P [] = None"
| "findIndex P (x # xs) =
     (if P x then Some 0 else (case findIndex P xs of None \<Rightarrow> None | Some i \<Rightarrow> Some (Suc i)))"

definition digit_val :: "char \<Rightarrow> nat option" where
  "digit_val c = findIndex (\<lambda>d. d = c) ''0123456789''"

function show_nat :: "nat \<Rightarrow> string" where
  "show_nat n = (if n < 10 then [digit_char n] else show_nat (n div 10) @ [digit_char (n mod 10)])"
  by pat_completeness auto
termination
  by (relation "measure id") auto

declare show_nat.simps [simp del]

definition show_int :: "int \<Rightarrow> string" where
  "show_int i = (if i < 0 then CHR ''-'' # show_nat (nat (- i)) else show_nat (nat i))"

definition voxelKey :: "int \<Rightarrow> int \<Rightarrow> int \<Rightarrow> string" where
  "voxelKey x y z = show_int x @ '','' @ show_int y @ '','' @ show_int z"

text \<open>\<open>split_comma k\<close> is \<open>k.split(',')\<close>: the pieces between the commas, one at least.\<close>
fun split_comma :: "string \<Rightarrow> string list" where
  "split_comma [] = [[]]"
| "split_comma (c # cs) =
     (if c = CHR '','' then [] # split_comma cs
      else (case split_comma cs of [] \<Rightarrow> [[c]] | p # ps \<Rightarrow> (c # p) # ps))"

text \<open>
  \<open>parseInt s\<close> is \<open>parseInt(s, 10)\<close>: leading white space is skipped (the ASCII part of
  it), one sign is read, then the longest run of decimal digits; NaN when there is none.
\<close>
definition is_space :: "char \<Rightarrow> bool" where
  "is_space c = (c = CHR '' '' \<or> c = CHR 0x09 \<or> c = CHR 0x0A \<or> c = CHR 0x0B \<or> c = CHR 0x0C \<or> c = CHR 0x0D)"

definition is_digit :: "char \<Rightarrow> bool" where
  "is_digit c = (digit_val c \<noteq> None)"

definition digits_val :: "string \<Rightarrow> nat" where
  "digits_val ds = foldl (\<lambda>a c. 10 * a + (case digit_val c of Some d \<Rightarrow> d | None \<Rightarrow> 0)) 0 ds"

definition parseInt :: "string \<Rightarrow> jsnum" where
  "parseInt s =
     (let s1 = dropWhile is_space s;
          neg = (case s1 of c # _ \<Rightarrow> c = CHR ''-'' | [] \<Rightarrow> False);
          s2 = (case s1 of c # r \<Rightarrow> if c = CHR ''-'' \<or> c = CHR ''+'' then r else s1 | [] \<Rightarrow> []);
          ds = takeWhile is_digit s2
      in if ds = [] then NaN
         else Num (of_int (if neg then - int (digits_val ds) else int (digits_val ds))))"

section \<open>The occupancy store: \<open>VoxelGrid.ts\<close>\<close>

text \<open>
  A \<open>THREE.Vector3\<close> is a triple of reals. \<open>occupied\<close> is the \<open>Set<string>\<close> of keys; a
  \<open>Set\<close> iterates in insertion order, so it is the list of its keys in that order,
  without repetition.
\<close>
type_synonym vec3 = "real \<times> real \<times> real"

record VoxelPosition =
  gx :: int
  gy :: int
  gz :: int

record VoxelGrid =
  cellSize :: real
  maxCells :: int
  occupied :: "string list"
  minY :: jsnum
  maxY :: jsnum

definition new_VoxelGrid :: "real \<Rightarrow> int \<Rightarrow> VoxelGrid" where
  "new_VoxelGrid cs mc =
     \<lparr>cellSize = cs, maxCells = mc, occupied = [], minY = PosInfinity, maxY = NegInfinity\<rparr>"

text \<open>\<open>Math.round\<close> rounds to the nearest integer, halves upwards.\<close>
definition Math_round :: "real \<Rightarrow> int" where
  "Math_round x = \<lfloor>x + 1 / 2\<rfloor>"

text \<open>
  \<open>worldToGrid\<close> divides by \<open>cellSize\<close>. With \<open>cellSize = 0\<close> the quotient is NaN or an
  infinity and the result is not a cell of integers: the model returns \<open>None\<close> there.
\<close>
definition worldToGrid :: "VoxelGrid \<Rightarrow> vec3 \<Rightarrow> VoxelPosition option" where
  "worldToGrid g worldPos =
     (case worldPos of (x, y, z) \<Rightarrow>
        if cellSize g = 0 then None
        else Some \<lparr>gx = Math_round (x / cellSize g),
                   gy = Math_round (y / cellSize g),
                   gz = Math_round (z / cellSize g)\<rparr>)"

definition gridToWorld :: "VoxelGrid \<Rightarrow> VoxelPosition \<Rightarrow> vec3" where
  "gridToWorld g pos =
     (of_int (gx pos) * cellSize g, of_int (gy pos) * cellSize g, of_int (gz pos) * cellSize g)"

text \<open>
  The two statements \<open>if (gy < this.minY) this.minY = gy; if (gy > this.maxY) this.maxY = gy\<close>
  that \<open>add\<close> and the rescan of \<open>remove\<close> share.
\<close>
definition update_extent :: "jsnum \<Rightarrow> VoxelGrid \<Rightarrow> VoxelGrid" where
  "update_extent y g =
     (let g1 = (if js_lt y (minY g) then g\<lparr>minY := y\<rparr> else g)
      in if js_lt (maxY g1) y then g1\<lparr>maxY := y\<rparr> else g1)"

definition add :: "VoxelGrid \<Rightarrow> int \<Rightarrow> int \<Rightarrow> int \<Rightarrow> bool \<times> VoxelGrid" where
  "add g x y z =
     (if maxCells g \<le> int (length (occupied g)) then (False, g)
      else let key = voxelKey x y z in
        if key \<in> set (occupied g) then (False, g)
        else (True, update_extent (Num (of_int y)) (g\<lparr>occupied := occupied g @ [key]\<rparr>)))"

definition has :: "VoxelGrid \<Rightarrow> int \<Rightarrow> int \<Rightarrow> int \<Rightarrow> bool" where
  "has g x y z = (voxelKey x y z \<in> set (occupied g))"

text \<open>
  \<open>remove\<close> recomputes the extent from the keys that are left:
  \<open>parseInt(k.split(',')[1], 10)\<close> for each key \<open>k\<close> (NaN when there is no second piece),
  in the loop \<open>rescan\<close>.
\<close>
definition key_gy :: "string \<Rightarrow> jsnum" where
  "key_gy k = (case split_comma k of _ # s # _ \<Rightarrow> parseInt s | _ \<Rightarrow> NaN)"

fun rescan :: "string list \<Rightarrow> VoxelGrid \<Rightarrow> VoxelGrid" where
  "rescan [] g = g"
| "rescan (k # ks) g = rescan ks (update_extent (key_gy k) g)"

definition remove :: "VoxelGrid \<Rightarrow> int \<Rightarrow> int \<Rightarrow> int \<Rightarrow> bool \<times> VoxelGrid" where
  "remove g x y z =
     (let key = voxelKey x y z in
      if key \<notin> set (occupied g) then (False, g)
      else let g1 = g\<lparr>occupied := remove1 key (occupied g)\<rparr>;
               g2 = g1\<lparr>minY := PosInfinity, maxY := NegInfinity\<rparr>
           in (True, rescan (occupied g2) g2))"

definition count :: "VoxelGrid \<Rightarrow> int" where
  "count g = int (length (occupied g))"

definition getYRange :: "VoxelGrid \<Rightarrow> jsnum \<times> jsnum" where
  "getYRange g = (if length (occupied g) = 0 then (Num 0, Num 0) else (minY g, maxY g))"

definition clear :: "VoxelGrid \<Rightarrow> VoxelGrid" where
  "clear g = g\<lparr>occupied := [], minY := PosInfinity, maxY := NegInfinity\<rparr>"

text \<open>Sequences of calls on a store; \<open>grid_run\<close> keeps the store and drops the results.\<close>
datatype grid_op = Add int int int | Remove int int int | Clear

fun grid_step :: "VoxelGrid \<Rightarrow> grid_op \<Rightarrow> VoxelGrid" where
  "grid_step g (Add x y z) = snd (add g x y z)"
| "grid_step g (Remove x y z) = snd (remove g x y z)"
| "grid_step g Clear = clear g"

definition grid_run :: "grid_op list \<Rightarrow> VoxelGrid \<Rightarrow> VoxelGrid" where
  "grid_run ops g = foldl grid_step g ops"

definition occupied_gys :: "VoxelGrid \<Rightarrow> int set" where
  "occupied_gys g = {y. \<exists>x z. has g x y z}"

subsection \<open>The cells behind the keys\<close>

text \<open>
  For the proofs: \<open>occupied_gys\<close> is the set of \<open>gy\<close> of the occupied cells, as \<open>has\<close>
  sees them; \<open>grid_inv g cs\<close> says that the keys of \<open>g\<close> are the keys of the distinct cells
  \<open>cs\<close>, in order, and that the stored extent is the extent of \<open>cs\<close>.
\<close>
type_synonym cell = "int \<times> int \<times> int"

definition key_of :: "cell \<Rightarrow> string" where
  "key_of c = (case c of (x, y, z) \<Rightarrow> voxelKey x y z)"

definition cell_y :: "cell \<Rightarrow> int" where
  "cell_y c = fst (snd c)"

definition extent_of :: "cell list \<Rightarrow> jsnum \<times> jsnum" where
  "extent_of cs =
     (if cs = [] then (PosInfinity, NegInfinity)
      else (Num (of_int (Min (cell_y ` set cs))), Num (of_int (Max (cell_y ` set cs)))))"

definition grid_inv :: "VoxelGrid \<Rightarrow> cell list \<Rightarrow> bool" where
  "grid_inv g cs \<longleftrightarrow>
     occupied g = map key_of cs \<and> distinct cs \<and> (minY g, maxY g) = extent_of cs"

section \<open>The render buffer: \<open>VoxelBuilderRenderer.ts\<close>\<close>

text \<open>
  Arithmetic of the language on \<open>jsnum\<close>, for the colour pass, which computes with the
  extent returned by \<open>getYRange\<close>. A quotient by zero takes the sign of the dividend.
\<close>
fun js_sub :: "jsnum \<Rightarrow> jsnum \<Rightarrow> jsnum" where
  "js_sub (Num a) (Num b) = Num (a - b)"
| "js_sub NaN _ = NaN"
| "js_sub _ NaN = NaN"
| "js_sub PosInfinity PosInfinity = NaN"
| "js_sub NegInfinity NegInfinity = NaN"
| "js_sub PosInfinity _ = PosInfinity"
| "js_sub NegInfinity _ = NegInfinity"
| "js_sub (Num a) PosInfinity = NegInfinity"
| "js_sub (Num a) NegInfinity = PosInfinity"

fun js_add :: "jsnum \<Rightarrow> jsnum \<Rightarrow> jsnum" where
  "js_add (Num a) (Num b) = Num (a + b)"
| "js_add NaN _ = NaN"
| "js_add _ NaN = NaN"
| "js_add PosInfinity NegInfinity = NaN"
| "js_add NegInfinity PosInfinity = NaN"
| "js_add PosInfinity _ = PosInfinity"
| "js_add NegInfinity _ = NegInfinity"
| "js_add (Num a) PosInfinity = PosInfinity"
| "js_add (Num a) NegInfinity = NegInfinity"

definition js_neg :: "jsnum \<Rightarrow> jsnum" where
  "js_neg a = (case a of NaN \<Rightarrow> NaN | NegInfinity \<Rightarrow> PosInfinity
               | Num x \<Rightarrow> Num (- x) | PosInfinity \<Rightarrow> NegInfinity)"

fun js_mul :: "jsnum \<Rightarrow> jsnum \<Rightarrow> jsnum" where
  "js_mul (Num a) (Num b) = Num (a * b)"
| "js_mul NaN _ = NaN"
| "js_mul _ NaN = NaN"
| "js_mul (Num a) b = (if a = 0 then NaN else if 0 < a then b else js_neg b)"
| "js_mul a (Num b) = (if b = 0 then NaN else if 0 < b then a else js_neg a)"
| "js_mul PosInfinity b = b"
| "js_mul NegInfinity b = js_neg b"

fun js_div :: "jsnum \<Rightarrow> jsnum \<Rightarrow> jsnum" where
  "js_div (Num a) (Num b) =
     (if b \<noteq> 0 then Num (a / b)
      else if a = 0 then NaN else if 0 < a then PosInfinity else NegInfinity)"
| "js_div NaN _ = NaN"
| "js_div _ NaN = NaN"
| "js_div (Num a) _ = Num 0"
| "js_div a (Num b) = (if 0 \<le> b then a else js_neg a)"
| "js_div _ _ = NaN"

text \<open>
  What can go wrong. \<open>TypeError\<close>: a property of \<open>undefined\<close> is written (\<open>removeBox\<close>,
  when no record holds the last index). \<open>RangeError\<close>: a typed array of negative length
  (\<open>new THREE.InstancedMesh\<close> with a negative count). \<open>NotANumber\<close> is no exception of the
  language: it marks a grid index that is NaN or infinite, where the model stops.
\<close>
datatype error = TypeError | RangeError | NotANumber

text \<open>
  A colour is what the code hands to \<open>THREE.Color\<close>: a hex triplet (\<open>set(0xffffff)\<close>) or
  hue, saturation and lightness (\<open>setHSL(h, s, l)\<close>); the conversion to RGB is the library's.
\<close>
datatype color = Hex nat | HSL jsnum jsnum jsnum

subsection \<open>Palettes and configuration (\<open>types.ts\<close>)\<close>
record VoxelColorPalette =
  name :: string
  bottomHSL :: "real \<times> real \<times> real"
  topHSL :: "real \<times> real \<times> real"
  roughness :: real
  metalness :: real
  edgeColor :: nat

definition VOXEL_PALETTES :: "VoxelColorPalette list" where
  "VOXEL_PALETTES =
     [\<lparr>name = ''Spectrum'', bottomHSL = (0.65, 0.75, 0.55), topHSL = (0.0, 0.75, 0.55),
       roughness = 0.4, metalness = 0.15, edgeColor = 0x000000\<rparr>,
      \<lparr>name = ''Cyberpunk'', bottomHSL = (0.83, 0.9, 0.55), topHSL = (0.52, 0.9, 0.55),
       roughness = 0.3, metalness = 0.25, edgeColor = 0x110022\<rparr>,
      \<lparr>name = ''Monolith'', bottomHSL = (0.0, 0.0, 0.12), topHSL = (0.0, 0.0, 0.35),
       roughness = 0.2, metalness = 0.6, edgeColor = 0xffffff\<rparr>,
      \<lparr>name = ''Gold Standard'', bottomHSL = (0.08, 0.85, 0.35), topHSL = (0.12, 0.95, 0.55),
       roughness = 0.15, metalness = 0.85, edgeColor = 0x332200\<rparr>]"

record VoxelBuilderConfig =
  debug :: bool
  cellSize_cfg :: real
  maxBoxes :: int
  spawnDistance :: real
  fpsWarningThreshold :: real
  fpsWarningDurationSec :: real

definition DEFAULT_VOXEL_BUILDER_CONFIG :: VoxelBuilderConfig where
  "DEFAULT_VOXEL_BUILDER_CONFIG =
     \<lparr>debug = False, cellSize_cfg = 0.45, maxBoxes = 1000, spawnDistance = 0.45,
      fpsWarningThreshold = 30, fpsWarningDurationSec = 3\<rparr>"

subsection \<open>The instanced mesh\<close>

text \<open>
  \<open>THREE.InstancedMesh\<close> is the library's; the model keeps what the renderer uses of it.
  \<open>capacity\<close> is the count it was built with, the size of its two typed arrays;
  \<open>count_mesh\<close> is its \<open>count\<close> property. A matrix slot holds the translation written
  there (the renderer writes translations only), a colour slot the colour written there;
  \<open>None\<close> is a slot never written. Writing a typed array outside its bounds does nothing,
  reading outside gives \<open>undefined\<close>. \<open>instanceColor\<close> is \<open>null\<close> until the first
  \<open>setColorAt\<close>.
\<close>
record BoxRecord = VoxelPosition +
  instanceIndex :: int

record InstancedMesh =
  capacity :: int
  count_mesh :: int
  instanceMatrix :: "int \<Rightarrow> vec3 option"
  instanceColor :: "(int \<Rightarrow> color option) option"

definition new_InstancedMesh :: "int \<Rightarrow> error + InstancedMesh" where
  "new_InstancedMesh n =
     (if n < 0 then Inl RangeError
      else Inr \<lparr>capacity = n, count_mesh = n, instanceMatrix = (\<lambda>_. None), instanceColor = None\<rparr>)"

definition setMatrixAt :: "InstancedMesh \<Rightarrow> int \<Rightarrow> vec3 option \<Rightarrow> InstancedMesh" where
  "setMatrixAt m i v =
     (if 0 \<le> i \<and> i < capacity m then m\<lparr>instanceMatrix := (instanceMatrix m)(i := v)\<rparr> else m)"

definition getMatrixAt :: "InstancedMesh \<Rightarrow> int \<Rightarrow> vec3 option" where
  "getMatrixAt m i = (if 0 \<le> i \<and> i < capacity m then instanceMatrix m i else None)"

definition setColorAt :: "InstancedMesh \<Rightarrow> int \<Rightarrow> color option \<Rightarrow> InstancedMesh" where
  "setColorAt m i c =
     (let arr = (case instanceColor m of None \<Rightarrow> (\<lambda>_. None) | Some a \<Rightarrow> a)
      in m\<lparr>instanceColor := Some (if 0 \<le> i \<and> i < capacity m then arr(i := c) else arr)\<rparr>)"

definition getColorAt :: "InstancedMesh \<Rightarrow> int \<Rightarrow> color option" where
  "getColorAt m i =
     (case instanceColor m of None \<Rightarrow> None
      | Some arr \<Rightarrow> if 0 \<le> i \<and> i < capacity m then arr i else None)"

subsection \<open>The renderer\<close>

text \<open>
  The fields of \<open>VoxelBuilderRenderer\<close> that its public operations read and write:
  \<open>edgeGroup\<close> is the list of the positions of the edge outlines, \<open>rotation\<close> the Euler
  angles \<open>(x, y)\<close> of the build group. Scene, camera, lights and materials are left out.
  The renderer holds a reference to the controller's grid; the model passes the grid to
  the operations that read it.
\<close>
record Renderer =
  instancedMesh :: InstancedMesh
  instanceCount :: int
  edgeGroup :: "vec3 list"
  ghostVisible :: bool
  ghostPosition :: vec3
  rotation :: "real \<times> real"
  targetRotY :: real
  targetRotX :: real
  boxes :: "BoxRecord list"
  palette :: VoxelColorPalette
  eraseMode_r :: bool

definition ROTATION_LERP_FACTOR :: real where
  "ROTATION_LERP_FACTOR = 0.12"

definition MAX_TILT :: real where
  "MAX_TILT = pi / 3"

definition initialize_r :: "VoxelBuilderConfig \<Rightarrow> error + Renderer" where
  "initialize_r cfg =
     (case new_InstancedMesh (maxBoxes cfg) of
        Inl e \<Rightarrow> Inl e
      | Inr mesh \<Rightarrow>
          Inr \<lparr>instancedMesh = mesh\<lparr>count_mesh := 0\<rparr>, instanceCount = 0, edgeGroup = [],
               ghostVisible = False, ghostPosition = (0, 0, 0), rotation = (0, 0),
               targetRotY = 0, targetRotX = 0, boxes = [], palette = VOXEL_PALETTES ! 0,
               eraseMode_r = False\<rparr>)"

text \<open>
  The body of the loop of \<open>updateAllColors\<close>, for a box at height \<open>y\<close>, and the loop
  itself, over \<open>boxes\<close> in order.
\<close>
definition gradient_color :: "VoxelColorPalette \<Rightarrow> jsnum \<Rightarrow> jsnum \<Rightarrow> int \<Rightarrow> color" where
  "gradient_color pal lo rng y =
     (case bottomHSL pal of (bH, bS, bL) \<Rightarrow>
      case topHSL pal of (tH, tS, tL) \<Rightarrow>
        let t = (if rng = Num 0 then Num 0.5 else js_div (js_sub (Num (of_int y)) lo) rng);
            h = js_add (Num bH) (js_mul (Num (tH - bH)) t);
            s = js_add (Num bS) (js_mul (Num (tS - bS)) t);
            l = js_add (Num bL) (js_mul (Num (tL - bL)) t)
        in HSL h s l)"

definition updateAllColors :: "Renderer \<Rightarrow> VoxelGrid \<Rightarrow> Renderer" where
  "updateAllColors r g =
     (case getYRange g of (lo, hi) \<Rightarrow>
        let rng = js_sub hi lo
        in r\<lparr>instancedMesh :=
               fold (\<lambda>box m. setColorAt m (instanceIndex box)
                                (Some (gradient_color (palette r) lo rng (gy box))))
                    (boxes r) (instancedMesh r)\<rparr>)"

definition addBox :: "Renderer \<Rightarrow> VoxelGrid \<Rightarrow> int \<Rightarrow> int \<Rightarrow> int \<Rightarrow> Renderer" where
  "addBox r g x y z =
     (let pos = gridToWorld g \<lparr>gx = x, gy = y, gz = z\<rparr>;
          idx = instanceCount r;
          m1 = setMatrixAt (instancedMesh r) idx (Some pos);
          m2 = setColorAt m1 idx (Some (Hex 0xffffff));
          r1 = r\<lparr>instanceCount := idx + 1,
                 instancedMesh := m2\<lparr>count_mesh := idx + 1\<rparr>,
                 edgeGroup := edgeGroup r @ [pos],
                 boxes := boxes r @ [\<lparr>gx = x, gy = y, gz = z, instanceIndex = idx\<rparr>]\<rparr>
      in updateAllColors r1 g)"

text \<open>
  \<open>removeBox\<close>. \<open>update_first P f\<close> is the assignment to a field of the record that
  \<open>find\<close> returned (the first one with \<open>P\<close>; the record is shared with the array);
  \<open>splice1 i\<close> is \<open>splice(i, 1)\<close>. \<open>removeBox_compact\<close> is the function up to the removal
  of the edge outline; \<open>removeBox\<close> adds the recolour pass that ends it.
\<close>
fun update_first :: "('a \<Rightarrow> bool) \<Rightarrow> ('a \<Rightarrow> 'a) \<Rightarrow> 'a list \<Rightarrow> 'a list" where
  "update_first P f [] = []"
| "update_first P f (x # xs) = (if P x then f x # xs else x # update_first P f xs)"

definition splice1 :: "nat \<Rightarrow> 'a list \<Rightarrow> 'a list" where
  "splice1 i xs = take i xs @ drop (Suc i) xs"

definition removeBox_compact :: "Renderer \<Rightarrow> int \<Rightarrow> int \<Rightarrow> int \<Rightarrow> error + bool \<times> Renderer" where
  "removeBox_compact r x y z =
     (case findIndex (\<lambda>b. gx b = x \<and> gy b = y \<and> gz b = z) (boxes r) of
        None \<Rightarrow> Inr (False, r)
      | Some idx \<Rightarrow>
          let lastIdx = instanceCount r - 1;
              removedRecord = boxes r ! idx;
              swapped =
                (if instanceIndex removedRecord \<noteq> lastIdx then
                   (case find (\<lambda>b. instanceIndex b = lastIdx) (boxes r) of
                      None \<Rightarrow> Inl TypeError
                    | Some lastRecord \<Rightarrow>
                        let m1 = setMatrixAt (instancedMesh r) (instanceIndex removedRecord)
                                   (getMatrixAt (instancedMesh r) lastIdx);
                            m2 = (if instanceColor m1 \<noteq> None
                                  then setColorAt m1 (instanceIndex removedRecord) (getColorAt m1 lastIdx)
                                  else m1)
                        in Inr (r\<lparr>instancedMesh := m2,
                                  boxes := update_first (\<lambda>b. instanceIndex b = lastIdx)
                                             (\<lambda>b. b\<lparr>instanceIndex := instanceIndex removedRecord\<rparr>)
                                             (boxes r)\<rparr>))
                 else Inr r)
          in (case swapped of
                Inl e \<Rightarrow> Inl e
              | Inr r1 \<Rightarrow>
                  Inr (True,
                       r1\<lparr>boxes := splice1 idx (boxes r1),
                          instanceCount := instanceCount r1 - 1,
                          instancedMesh := (instancedMesh r1)\<lparr>count_mesh := instanceCount r1 - 1\<rparr>,
                          edgeGroup := (if idx < length (edgeGroup r1)
                                        then splice1 idx (edgeGroup r1) else edgeGroup r1)\<rparr>)))"

definition removeBox :: "Renderer \<Rightarrow> VoxelGrid \<Rightarrow> int \<Rightarrow> int \<Rightarrow> int \<Rightarrow> error + bool \<times> Renderer" where
  "removeBox r g x y z =
     (case removeBox_compact r x y z of
        Inl e \<Rightarrow> Inl e
      | Inr (found, r1) \<Rightarrow> if found then Inr (True, updateAllColors r1 g) else Inr (False, r1))"

definition setEraseMode :: "Renderer \<Rightarrow> bool \<Rightarrow> Renderer" where
  "setEraseMode r active = (if eraseMode_r r = active then r else r\<lparr>eraseMode_r := active\<rparr>)"

definition setPalette :: "Renderer \<Rightarrow> VoxelGrid \<Rightarrow> VoxelColorPalette \<Rightarrow> Renderer" where
  "setPalette r g p = updateAllColors (r\<lparr>palette := p\<rparr>) g"

definition updateGhostPreview :: "Renderer \<Rightarrow> vec3 \<Rightarrow> bool \<Rightarrow> Renderer" where
  "updateGhostPreview r worldPos visible =
     (let r1 = r\<lparr>ghostVisible := visible\<rparr>
      in if visible then r1\<lparr>ghostPosition := worldPos\<rparr> else r1)"

definition applyRotationDelta :: "Renderer \<Rightarrow> real \<Rightarrow> real \<Rightarrow> Renderer" where
  "applyRotationDelta r deltaY deltaX =
     r\<lparr>targetRotY := targetRotY r + deltaY,
       targetRotX := max (- MAX_TILT) (min MAX_TILT (targetRotX r + deltaX))\<rparr>"

definition resetRotation :: "Renderer \<Rightarrow> Renderer" where
  "resetRotation r = r\<lparr>targetRotY := 0, targetRotX := 0\<rparr>"

definition updateGroupRotation :: "Renderer \<Rightarrow> Renderer" where
  "updateGroupRotation r =
     (case rotation r of (rx, ry) \<Rightarrow>
        r\<lparr>rotation := (rx + (targetRotX r - rx) * ROTATION_LERP_FACTOR,
                       ry + (targetRotY r - ry) * ROTATION_LERP_FACTOR)\<rparr>)"

definition clearBoxes :: "Renderer \<Rightarrow> Renderer" where
  "clearBoxes r =
     r\<lparr>instanceCount := 0, instancedMesh := (instancedMesh r)\<lparr>count_mesh := 0\<rparr>,
       boxes := [], edgeGroup := []\<rparr>"

section \<open>The controller: \<open>VoxelBuilderController.ts\<close>\<close>

text \<open>
  Modelled from the spec: the gesture types of \<open>shared/GestureTypes\<close> and the landmark
  indices of \<open>shared/HandTypes\<close>, which the controller imports. An event has a type
  (PINCH, FIST, PINKY_PINCH), a lifecycle state (STARTED, ACTIVE, ENDED) and data:
  handedness, position, normalised screen position. The wrist is landmark 0, the base of
  the middle finger landmark 9. The hand tracker and the gesture detector are outside:
  what they return for a frame (\<open>HandResult\<close>, with the handedness labels already in
  lower case, and the list of events) is an argument of \<open>processHands\<close>.
\<close>
datatype GestureType = PINCH | FIST | PINKY_PINCH

datatype GestureState = STARTED | ACTIVE | ENDED

datatype Handedness = Left | Right | Unknown

record GestureEvent =
  ev_type :: GestureType
  ev_state :: GestureState
  handedness :: Handedness
  position :: vec3
  normalizedPosition :: "real \<times> real"

record HandResult =
  landmarks :: "vec3 list list"
  handednessStr :: "Handedness list"

definition WRIST :: nat where
  "WRIST = 0"

definition MIDDLE_FINGER_MCP :: nat where
  "MIDDLE_FINGER_MCP = 9"

definition DEPTH_SCALE_SENSITIVITY :: real where
  "DEPTH_SCALE_SENSITIVITY = 12"

definition DEPTH_SMOOTHING_FACTOR :: real where
  "DEPTH_SMOOTHING_FACTOR = 0.3"

definition ROTATION_SENSITIVITY :: real where
  "ROTATION_SENSITIVITY = 4.0"

definition POSITION_SMOOTHING_SPEED :: real where
  "POSITION_SMOOTHING_SPEED = 18.0"

text \<open>
  The fields of the controller that its gesture handling reads and writes. The animation
  loop's own bookkeeping (timestamps, frame id, debug callback, the debug string of the
  current cell) is left out.
\<close>
record Controller =
  config :: VoxelBuilderConfig
  grid :: VoxelGrid
  renderer :: "Renderer option"
  isDrawing :: bool
  lastSpawnWorldPos :: vec3
  smoothedPinchPos :: vec3
  referenceHandScale :: real
  smoothedHandScale :: real
  isRotating :: bool
  rotationPrevPos :: "real \<times> real"
  eraseMode :: bool
  paletteIndex :: nat
  currentFps :: real
  lowFpsAccumulator :: real
  performanceWarning :: bool
  lastHandCount :: nat

definition new_Controller :: "VoxelBuilderConfig \<Rightarrow> Controller" where
  "new_Controller cfg =
     \<lparr>config = cfg, grid = new_VoxelGrid (cellSize_cfg cfg) (maxBoxes cfg), renderer = None,
      isDrawing = False, lastSpawnWorldPos = (0, 0, 0), smoothedPinchPos = (0, 0, 0),
      referenceHandScale = 0, smoothedHandScale = 0, isRotating = False,
      rotationPrevPos = (0, 0), eraseMode = False, paletteIndex = 0, currentFps = 60,
      lowFpsAccumulator = 0, performanceWarning = False, lastHandCount = 0\<rparr>"

definition initialize :: "Controller \<Rightarrow> error + Controller" where
  "initialize c =
     (if renderer c \<noteq> None then Inr c
      else case initialize_r (config c) of
             Inl e \<Rightarrow> Inl e
           | Inr r \<Rightarrow> Inr (c\<lparr>renderer := Some r\<rparr>))"

definition reset :: "Controller \<Rightarrow> Controller" where
  "reset c =
     (let c1 = c\<lparr>grid := clear (grid c)\<rparr>;
          c2 = c1\<lparr>renderer := map_option (\<lambda>r. resetRotation (clearBoxes r)) (renderer c1)\<rparr>;
          c3 = c2\<lparr>isDrawing := False, isRotating := False, eraseMode := False\<rparr>;
          c4 = c3\<lparr>renderer := map_option (\<lambda>r. setEraseMode r False) (renderer c3)\<rparr>
      in c4\<lparr>performanceWarning := False, lowFpsAccumulator := 0,
             referenceHandScale := 0, smoothedHandScale := 0\<rparr>)"

definition updatePerformanceWarning :: "Controller \<Rightarrow> Controller" where
  "updatePerformanceWarning c =
     (if currentFps c < fpsWarningThreshold (config c) \<and> 0 < count (grid c) then
        let c1 = c\<lparr>lowFpsAccumulator := lowFpsAccumulator c + 1\<rparr>
        in if fpsWarningDurationSec (config c1) \<le> lowFpsAccumulator c1
           then c1\<lparr>performanceWarning := True\<rparr> else c1
      else c\<lparr>lowFpsAccumulator := 0\<rparr>)"

text \<open>
  Once a second \<open>loop\<close> stores the number of frames of that second in \<open>currentFps\<close> and
  calls \<open>updatePerformanceWarning\<close>: \<open>fps_update\<close>.
\<close>
definition fps_update :: "Controller \<Rightarrow> real \<Rightarrow> Controller" where
  "fps_update c frameCount = updatePerformanceWarning (c\<lparr>currentFps := frameCount\<rparr>)"

definition endDrawing :: "Controller \<Rightarrow> Controller" where
  "endDrawing c =
     (if \<not> isDrawing c then c
      else c\<lparr>isDrawing := False,
             renderer := map_option (\<lambda>r. updateGhostPreview r (0, 0, 0) False) (renderer c)\<rparr>)"

definition trySpawnBox :: "Controller \<Rightarrow> int \<Rightarrow> int \<Rightarrow> int \<Rightarrow> vec3 \<Rightarrow> Controller" where
  "trySpawnBox c x y z worldPos =
     (if performanceWarning c then c
      else case add (grid c) x y z of (added, g') \<Rightarrow>
        if \<not> added then c\<lparr>grid := g'\<rparr>
        else c\<lparr>grid := g',
               renderer := map_option (\<lambda>r. addBox r g' x y z) (renderer c),
               lastSpawnWorldPos := worldPos\<rparr>)"

definition tryEraseBox :: "Controller \<Rightarrow> int \<Rightarrow> int \<Rightarrow> int \<Rightarrow> error + Controller" where
  "tryEraseBox c x y z =
     (case remove (grid c) x y z of (removed, g') \<Rightarrow>
        if \<not> removed then Inr (c\<lparr>grid := g'\<rparr>)
        else case renderer c of
               None \<Rightarrow> Inr (c\<lparr>grid := g'\<rparr>)
             | Some r \<Rightarrow>
                 (case removeBox r g' x y z of
                    Inl e \<Rightarrow> Inl e
                  | Inr (_, r') \<Rightarrow> Inr (c\<lparr>grid := g', renderer := Some r'\<rparr>)))"

definition handleLeftFist :: "Controller \<Rightarrow> GestureState \<Rightarrow> Controller" where
  "handleLeftFist c st =
     (if st = STARTED \<or> st = ACTIVE then
        (if \<not> eraseMode c
         then c\<lparr>eraseMode := True,
                renderer := map_option (\<lambda>r. setEraseMode r True) (renderer c)\<rparr>
         else c)
      else if st = ENDED then
        c\<lparr>eraseMode := False, renderer := map_option (\<lambda>r. setEraseMode r False) (renderer c)\<rparr>
      else c)"

definition cyclePalette :: "Controller \<Rightarrow> Controller" where
  "cyclePalette c =
     (let i = (paletteIndex c + 1) mod length VOXEL_PALETTES
      in c\<lparr>paletteIndex := i,
            renderer := map_option (\<lambda>r. setPalette r (grid c) (VOXEL_PALETTES ! i)) (renderer c)\<rparr>)"

definition handleLeftPinch :: "Controller \<Rightarrow> GestureState \<Rightarrow> GestureEvent \<Rightarrow> Controller" where
  "handleLeftPinch c st data =
     (if st = STARTED then
        c\<lparr>isRotating := True, rotationPrevPos := normalizedPosition data\<rparr>
      else if st = ACTIVE \<and> isRotating c then
        (let dx = fst (normalizedPosition data) - fst (rotationPrevPos c);
             dy = snd (normalizedPosition data) - snd (rotationPrevPos c)
         in c\<lparr>renderer := map_option
                   (\<lambda>r. applyRotationDelta r (- dx * ROTATION_SENSITIVITY) (dy * ROTATION_SENSITIVITY))
                   (renderer c),
                rotationPrevPos := normalizedPosition data\<rparr>)
      else if st = ENDED then c\<lparr>isRotating := False\<rparr>
      else c)"

text \<open>\<open>nth_opt xs i\<close> is \<open>xs[i]\<close>, with \<open>None\<close> for \<open>undefined\<close>.\<close>
definition nth_opt :: "'a list \<Rightarrow> nat \<Rightarrow> 'a option" where
  "nth_opt xs i = (if i < length xs then Some (xs ! i) else None)"

definition computeHandScale :: "vec3 list \<Rightarrow> real" where
  "computeHandScale lm =
     (case (nth_opt lm WRIST, nth_opt lm MIDDLE_FINGER_MCP) of
        (Some (wx, wy, wz), Some (mx, my, mz)) \<Rightarrow>
          (let dx = wx - mx; dy = wy - my in sqrt (dx * dx + dy * dy))
      | _ \<Rightarrow> 0)"

definition computeDepthCorrectedPosition ::
  "Controller \<Rightarrow> GestureEvent \<Rightarrow> vec3 list option \<Rightarrow> GestureState \<Rightarrow> vec3 \<times> Controller" where
  "computeDepthCorrectedPosition c data lms st =
     (let pos = position data in
      case lms of
        None \<Rightarrow> (pos, c)
      | Some lm \<Rightarrow>
          let rawScale = computeHandScale lm in
          if rawScale \<le> 0 then (pos, c)
          else
            let c1 = (if smoothedHandScale c = 0 \<or> st = STARTED
                      then c\<lparr>smoothedHandScale := rawScale\<rparr>
                      else c\<lparr>smoothedHandScale :=
                               DEPTH_SMOOTHING_FACTOR * rawScale
                               + (1 - DEPTH_SMOOTHING_FACTOR) * smoothedHandScale c\<rparr>)
            in if st = STARTED then
                 ((fst pos, fst (snd pos), 0), c1\<lparr>referenceHandScale := smoothedHandScale c1\<rparr>)
               else if 0 < referenceHandScale c1 then
                 (let scaleDelta = smoothedHandScale c1 - referenceHandScale c1;
                      normalizedDelta = scaleDelta / referenceHandScale c1
                  in ((fst pos, fst (snd pos), normalizedDelta * DEPTH_SCALE_SENSITIVITY), c1))
               else (pos, c1))"

definition distanceTo :: "vec3 \<Rightarrow> vec3 \<Rightarrow> real" where
  "distanceTo a b =
     (case a of (ax, ay, az) \<Rightarrow> case b of (bx, by, bz) \<Rightarrow>
        sqrt ((ax - bx) * (ax - bx) + (ay - by) * (ay - by) + (az - bz) * (az - bz)))"

definition lerp3 :: "vec3 \<Rightarrow> vec3 \<Rightarrow> real \<Rightarrow> vec3" where
  "lerp3 a b alpha =
     (case a of (ax, ay, az) \<Rightarrow> case b of (bx, by, bz) \<Rightarrow>
        (ax + (bx - ax) * alpha, ay + (by - ay) * alpha, az + (bz - az) * alpha))"

text \<open>
  \<open>handleRightPinch\<close>. The inverse rotation of the build group is the library's
  (\<open>getInverseGroupQuaternion\<close>, \<open>applyQuaternion\<close>): the argument \<open>unrotate\<close> stands for
  it, given the Euler angles of the group. \<open>place_or_erase\<close> is the choice between
  \<open>tryEraseBox\<close> and \<open>trySpawnBox\<close> that the STARTED and ACTIVE branches share.
\<close>
definition place_or_erase :: "Controller \<Rightarrow> VoxelPosition \<Rightarrow> vec3 \<Rightarrow> error + Controller" where
  "place_or_erase c gridPos snappedLocalPos =
     (if eraseMode c then tryEraseBox c (gx gridPos) (gy gridPos) (gz gridPos)
      else Inr (trySpawnBox c (gx gridPos) (gy gridPos) (gz gridPos) snappedLocalPos))"

definition handleRightPinch ::
  "(real \<times> real \<Rightarrow> vec3 \<Rightarrow> vec3) \<Rightarrow> Controller \<Rightarrow> GestureState \<Rightarrow> vec3 \<Rightarrow> error + Controller" where
  "handleRightPinch unrotate c st worldPos =
     (let localPos = (case renderer c of None \<Rightarrow> worldPos
                      | Some r \<Rightarrow> unrotate (rotation r) worldPos)
      in case st of
           ENDED \<Rightarrow> Inr (endDrawing c)
         | _ \<Rightarrow>
           (case worldToGrid (grid c) localPos of
              None \<Rightarrow> Inl NotANumber
            | Some gridPos \<Rightarrow>
                let snappedLocalPos = gridToWorld (grid c) gridPos in
                if st = STARTED then
                  place_or_erase
                    (c\<lparr>isDrawing := True,
                       renderer := map_option (\<lambda>r. updateGhostPreview r snappedLocalPos True)
                                     (renderer c)\<rparr>)
                    gridPos snappedLocalPos
                else
                  (let c1 = c\<lparr>renderer := map_option
                                  (\<lambda>r. updateGhostPreview r snappedLocalPos True) (renderer c)\<rparr>;
                       dist = distanceTo localPos (lastSpawnWorldPos c1)
                   in if spawnDistance (config c1) \<le> dist
                      then place_or_erase c1 gridPos snappedLocalPos
                      else Inr c1)))"

text \<open>
  \<open>processHands\<close>: the loop over the events of the frame carries the controller and the
  three flags \<open>rightPinchHandled\<close>, \<open>leftPinchHandled\<close>, \<open>fistHandled\<close>.
\<close>
record EventLoop =
  ctl :: Controller
  rightPinchHandled :: bool
  leftPinchHandled :: bool
  fistHandled :: bool

definition process_event ::
  "(real \<times> real \<Rightarrow> vec3 \<Rightarrow> vec3) \<Rightarrow> HandResult \<Rightarrow> real \<Rightarrow> EventLoop \<Rightarrow> GestureEvent
     \<Rightarrow> error + EventLoop" where
  "process_event unrotate res dt s ev =
     (case ev_type ev of
        PINCH \<Rightarrow>
          (if handedness ev = Right then
             (let rightHandIndex = findIndex (\<lambda>h. h = Right) (handednessStr res);
                  lms = (case rightHandIndex of None \<Rightarrow> None
                         | Some i \<Rightarrow> nth_opt (landmarks res) i);
                  (targetPos, c1) = computeDepthCorrectedPosition (ctl s) ev lms (ev_state ev);
                  c2 = (if ev_state ev = STARTED then c1\<lparr>smoothedPinchPos := targetPos\<rparr>
                        else let alpha = 1 - exp (- POSITION_SMOOTHING_SPEED * dt)
                             in c1\<lparr>smoothedPinchPos := lerp3 (smoothedPinchPos c1) targetPos alpha\<rparr>)
              in case handleRightPinch unrotate c2 (ev_state ev) (smoothedPinchPos c2) of
                   Inl e \<Rightarrow> Inl e
                 | Inr c3 \<Rightarrow> Inr (s\<lparr>ctl := c3, rightPinchHandled := True\<rparr>))
           else if handedness ev = Left then
             Inr (s\<lparr>ctl := handleLeftPinch (ctl s) (ev_state ev) ev, leftPinchHandled := True\<rparr>)
           else Inr s)
      | FIST \<Rightarrow>
          (if handedness ev = Left
           then Inr (s\<lparr>ctl := handleLeftFist (ctl s) (ev_state ev), fistHandled := True\<rparr>)
           else Inr s)
      | PINKY_PINCH \<Rightarrow>
          (if ev_state ev = STARTED then Inr (s\<lparr>ctl := cyclePalette (ctl s)\<rparr>) else Inr s))"

fun process_events ::
  "(real \<times> real \<Rightarrow> vec3 \<Rightarrow> vec3) \<Rightarrow> HandResult \<Rightarrow> real \<Rightarrow> EventLoop \<Rightarrow> GestureEvent list
     \<Rightarrow> error + EventLoop" where
  "process_events unrotate res dt s [] = Inr s"
| "process_events unrotate res dt s (ev # evs) =
     (case process_event unrotate res dt s ev of
        Inl e \<Rightarrow> Inl e
      | Inr s' \<Rightarrow> process_events unrotate res dt s' evs)"

definition processHands ::
  "(real \<times> real \<Rightarrow> vec3 \<Rightarrow> vec3) \<Rightarrow> Controller \<Rightarrow> HandResult option \<Rightarrow> GestureEvent list \<Rightarrow> real
     \<Rightarrow> error + Controller" where
  "processHands unrotate c result events dt =
     (case (case result of None \<Rightarrow> None
            | Some res \<Rightarrow> if length (landmarks res) = 0 then None else Some res) of
        None \<Rightarrow> Inr (endDrawing (c\<lparr>lastHandCount := 0\<rparr>))
      | Some res \<Rightarrow>
        let c0 = c\<lparr>lastHandCount := length (landmarks res)\<rparr>
        in case process_events unrotate res dt
                  \<lparr>ctl = c0, rightPinchHandled = False, leftPinchHandled = False,
                   fistHandled = False\<rparr> events of
             Inl e \<Rightarrow> Inl e
           | Inr s \<Rightarrow>
               let c1 = (if \<not> rightPinchHandled s \<and> isDrawing (ctl s)
                         then endDrawing (ctl s) else ctl s);
                   c2 = (if \<not> leftPinchHandled s \<and> isRotating c1
                         then c1\<lparr>isRotating := False\<rparr> else c1);
                   c3 = (if \<not> fistHandled s \<and> eraseMode c2
                         then c2\<lparr>eraseMode := False,
                                 renderer := map_option (\<lambda>r. setEraseMode r False) (renderer c2)\<rparr>
                         else c2)
               in Inr c3)"

text \<open>
  Sequences of steps of a running controller: the two private write paths on their own,
  whole frames, the once-a-second frame-rate update, and \<open>reset\<close>.
\<close>
datatype ctl_op =
    TrySpawnBox int int int vec3
  | TryEraseBox int int int
  | Frame "HandResult option" "GestureEvent list" real
  | FpsUpdate real
  | Reset

fun ctl_step :: "(real \<times> real \<Rightarrow> vec3 \<Rightarrow> vec3) \<Rightarrow> Controller \<Rightarrow> ctl_op \<Rightarrow> error + Controller" where
  "ctl_step unrotate c (TrySpawnBox x y z p) = Inr (trySpawnBox c x y z p)"
| "ctl_step unrotate c (TryEraseBox x y z) = tryEraseBox c x y z"
| "ctl_step unrotate c (Frame result events dt) = processHands unrotate c result events dt"
| "ctl_step unrotate c (FpsUpdate n) = Inr (fps_update c n)"
| "ctl_step unrotate c Reset = Inr (reset c)"

fun ctl_run :: "(real \<times> real \<Rightarrow> vec3 \<Rightarrow> vec3) \<Rightarrow> Controller \<Rightarrow> ctl_op list \<Rightarrow> error + Controller" where
  "ctl_run unrotate c [] = Inr c"
| "ctl_run unrotate c (op # ops) =
     (case ctl_step unrotate c op of
        Inl e \<Rightarrow> Inl e
      | Inr c' \<Rightarrow> ctl_run unrotate c' ops)"


subsection \<open>Invariants\<close>

text \<open>
  \<open>render_inv\<close>: the records are as many as \<open>instanceCount\<close>, which the mesh shows and
  its capacity bounds; their instance indices are distinct and lie in
  \<open>[0, instanceCount)\<close>; their cells are distinct; the colour attribute exists as soon as
  there is a record. \<open>sync_inv\<close>: moreover the records, in order, are the cells of the
  store, each record's slot holds the translation of its cell, and the edge outlines sit
  at the cells. \<open>ctl_inv\<close>: the controller has a renderer in step with its grid, built
  from its configuration. \<open>relabel\<close> is what swap-and-pop does to the indices.
\<close>
definition cell_of :: "BoxRecord \<Rightarrow> cell" where
  "cell_of b = (gx b, gy b, gz b)"

definition box_pos :: "BoxRecord \<Rightarrow> VoxelPosition" where
  "box_pos b = \<lparr>gx = gx b, gy = gy b, gz = gz b\<rparr>"

definition relabel :: "int \<Rightarrow> int \<Rightarrow> BoxRecord \<Rightarrow> BoxRecord" where
  "relabel lastIdx k b = (if instanceIndex b = lastIdx then b\<lparr>instanceIndex := k\<rparr> else b)"

definition render_inv :: "Renderer \<Rightarrow> bool" where
  "render_inv r \<longleftrightarrow>
     instanceCount r = int (length (boxes r)) \<and>
     count_mesh (instancedMesh r) = instanceCount r \<and>
     instanceCount r \<le> capacity (instancedMesh r) \<and>
     distinct (map instanceIndex (boxes r)) \<and>
     (\<forall>b \<in> set (boxes r). 0 \<le> instanceIndex b \<and> instanceIndex b < instanceCount r) \<and>
     distinct (map cell_of (boxes r)) \<and>
     (boxes r \<noteq> [] \<longrightarrow> instanceColor (instancedMesh r) \<noteq> None)"

definition sync_inv :: "VoxelGrid \<Rightarrow> Renderer \<Rightarrow> bool" where
  "sync_inv g r \<longleftrightarrow>
     render_inv r \<and>
     grid_inv g (map cell_of (boxes r)) \<and>
     capacity (instancedMesh r) = maxCells g \<and>
     (\<forall>b \<in> set (boxes r).
        getMatrixAt (instancedMesh r) (instanceIndex b) = Some (gridToWorld g (box_pos b))) \<and>
     edgeGroup r = map (\<lambda>b. gridToWorld g (box_pos b)) (boxes r)"

definition ctl_inv :: "VoxelBuilderConfig \<Rightarrow> Controller \<Rightarrow> bool" where
  "ctl_inv cfg c \<longleftrightarrow>
     config c = cfg \<and>
     (\<exists>r. renderer c = Some r \<and> sync_inv (grid c) r) \<and>
     maxCells (grid c) = maxBoxes cfg \<and>
     cellSize (grid c) = cellSize_cfg cfg"

subsection \<open>States of the scenarios\<close>

text \<open>
  \<open>scenario_D\<close>: cells A = (0,0,0), B = (1,0,0), C = (2,0,0) added to a fresh store and
  renderer. \<open>initialized\<close>: a controller after \<open>initialize\<close>. \<open>warned_state\<close>: one cell
  placed, then three seconds at 10 frames per second. \<open>two_hands\<close>, \<open>left_grab_events\<close>:
  a frame with both hands in which the left hand starts a pinch and a fist. \<open>drag\<close>: a
  sequence of right-pinch events through \<open>handleRightPinch\<close>.
\<close>
definition scenario_D :: "Renderer \<Rightarrow> VoxelGrid \<times> Renderer" where
  "scenario_D r0 =
     (let g0 = new_VoxelGrid 0.45 1000;
          g1 = snd (add g0 0 0 0); r1 = addBox r0 g1 0 0 0;
          g2 = snd (add g1 1 0 0); r2 = addBox r1 g2 1 0 0;
          g3 = snd (add g2 2 0 0); r3 = addBox r2 g3 2 0 0
      in (g3, r3))"

definition initialized :: "VoxelBuilderConfig \<Rightarrow> Controller" where
  "initialized cfg =
     (case initialize (new_Controller cfg) of Inr c \<Rightarrow> c | Inl e \<Rightarrow> new_Controller cfg)"

definition warned_state :: Controller where
  "warned_state =
     fps_update (fps_update (fps_update
       (trySpawnBox (initialized DEFAULT_VOXEL_BUILDER_CONFIG) 0 0 0 (0, 0, 0)) 10) 10) 10"

definition two_hands :: HandResult where
  "two_hands = \<lparr>landmarks = [replicate 21 (0.3, 0.5, 0), replicate 21 (0.7, 0.5, 0)],
                 handednessStr = [Left, Right]\<rparr>"

definition left_grab_events :: "GestureEvent list" where
  "left_grab_events =
     [\<lparr>ev_type = PINCH, ev_state = STARTED, handedness = Left, position = (0, 0, 0),
       normalizedPosition = (0.3, 0.5)\<rparr>,
      \<lparr>ev_type = FIST, ev_state = STARTED, handedness = Left, position = (0, 0, 0),
       normalizedPosition = (0.3, 0.5)\<rparr>]"

fun drag ::
  "(real \<times> real \<Rightarrow> vec3 \<Rightarrow> vec3) \<Rightarrow> Controller \<Rightarrow> (GestureState \<times> vec3) list
     \<Rightarrow> error + Controller" where
  "drag unrotate c [] = Inr c"
| "drag unrotate c ((st, worldPos) # evs) =
     (case handleRightPinch unrotate c st worldPos of
        Inl e \<Rightarrow> Inl e
      | Inr c' \<Rightarrow> drag unrotate c' evs)"

section \<open>Keys are read back as written\<close>

lemma digit_val_digit_char: "d < 10 \<Longrightarrow> digit_val (digit_char d) = Some d"
proof -
  assume "d < 10"
  then have "d = 0 \<or> d = 1 \<or> d = 2 \<or> d = 3 \<or> d = 4 \<or> d = 5 \<or> d = 6 \<or> d = 7 \<or> d = 8 \<or> d = 9"
    by arith
  then show ?thesis
    by (elim disjE) (simp_all add: digit_val_def digit_char_def)
qed

lemma digit_char_is_digit: "is_digit (digit_char d)"
  by (simp add: is_digit_def digit_val_def digit_char_def)

lemma is_digit_not_comma: "is_digit c \<Longrightarrow> c \<noteq> CHR '',''"
  by (auto simp: is_digit_def digit_val_def)

lemma is_digit_not_space: "is_digit c \<Longrightarrow> \<not> is_space c"
  by (auto simp: is_digit_def digit_val_def is_space_def)

lemma is_digit_not_sign: "is_digit c \<Longrightarrow> c \<noteq> CHR ''-'' \<and> c \<noteq> CHR ''+''"
  by (auto simp: is_digit_def digit_val_def)

lemma show_nat_digits: "\<forall>c \<in> set (show_nat n). is_digit c"
proof (induction n rule: show_nat.induct)
  case (1 n)
  show ?case
  proof (cases "n < 10")
    case True
    then show ?thesis by (subst show_nat.simps) (simp add: digit_char_is_digit)
  next
    case False
    with 1 show ?thesis by (subst show_nat.simps) (simp add: digit_char_is_digit)
  qed
qed

lemma show_nat_nonempty: "show_nat n \<noteq> []"
  by (subst show_nat.simps) simp

lemma digits_val_snoc:
  "digits_val (ds @ [c]) = 10 * digits_val ds + (case digit_val c of Some d \<Rightarrow> d | None \<Rightarrow> 0)"
  by (simp add: digits_val_def)

lemma digits_val_show_nat: "digits_val (show_nat n) = n"
proof (induction n rule: show_nat.induct)
  case (1 n)
  show ?case
  proof (cases "n < 10")
    case True
    then show ?thesis
      by (subst show_nat.simps) (simp add: digits_val_def digit_val_digit_char)
  next
    case False
    then have "digits_val (show_nat n) = 10 * (n div 10) + n mod 10"
      using 1 by (subst show_nat.simps) (simp add: digits_val_snoc digit_val_digit_char)
    then show ?thesis by simp
  qed
qed

lemma takeWhile_all: "\<forall>x \<in> set xs. P x \<Longrightarrow> takeWhile P xs = xs"
  by (induction xs) auto

lemma parseInt_show_int: "parseInt (show_int i) = Num (of_int i)"
proof (cases "i < 0")
  case True
  have d: "takeWhile is_digit (show_nat (nat (- i))) = show_nat (nat (- i))"
    by (rule takeWhile_all) (rule show_nat_digits)
  have sp: "\<not> is_space CHR ''-''" by (simp add: is_space_def)
  from True show ?thesis
    by (simp add: parseInt_def show_int_def sp d show_nat_nonempty digits_val_show_nat)
next
  case False
  obtain c r where cr: "show_nat (nat i) = c # r"
    using show_nat_nonempty [of "nat i"] by (cases "show_nat (nat i)") auto
  have "is_digit c" using show_nat_digits [of "nat i"] cr by simp
  then have c: "\<not> is_space c" "c \<noteq> CHR ''-''" "c \<noteq> CHR ''+''"
    using is_digit_not_space is_digit_not_sign by auto
  have d: "takeWhile is_digit (c # r) = c # r"
    using takeWhile_all [of "show_nat (nat i)" is_digit] show_nat_digits [of "nat i"] cr by simp
  have v: "digits_val (c # r) = nat i"
    using digits_val_show_nat [of "nat i"] cr by simp
  from False show ?thesis
    using c v by (simp add: parseInt_def show_int_def cr Let_def d del: takeWhile.simps)
qed

lemma show_int_no_comma: "CHR '','' \<notin> set (show_int i)"
proof -
  have "CHR '','' \<notin> set (show_nat n)" for n
    using show_nat_digits [of n] is_digit_not_comma by blast
  then show ?thesis by (simp add: show_int_def)
qed

lemma split_comma_nonempty: "split_comma s \<noteq> []"
  by (induction s) (auto split: list.splits)

lemma split_comma_plain: "CHR '','' \<notin> set a \<Longrightarrow> split_comma a = [a]"
  by (induction a) auto

lemma split_comma_append:
  "CHR '','' \<notin> set a \<Longrightarrow> split_comma (a @ CHR '','' # b) = a # split_comma b"
  by (induction a) auto

lemma split_comma_voxelKey:
  "split_comma (voxelKey x y z) = [show_int x, show_int y, show_int z]"
  by (simp add: voxelKey_def split_comma_append split_comma_plain show_int_no_comma)

lemma show_int_inj: "show_int i = show_int j \<Longrightarrow> i = j"
proof -
  assume "show_int i = show_int j"
  then have "parseInt (show_int i) = parseInt (show_int j)" by simp
  then show ?thesis by (simp add: parseInt_show_int)
qed

lemma voxelKey_inj:
  "voxelKey x y z = voxelKey x' y' z' \<longleftrightarrow> x = x' \<and> y = y' \<and> z = z'"
proof
  assume "voxelKey x y z = voxelKey x' y' z'"
  then have "split_comma (voxelKey x y z) = split_comma (voxelKey x' y' z')" by simp
  then show "x = x' \<and> y = y' \<and> z = z'"
    by (auto simp: split_comma_voxelKey dest: show_int_inj)
qed simp

section \<open>The store keeps its invariant\<close>

lemma key_of_inj: "key_of c = key_of d \<longleftrightarrow> c = d"
  by (cases c, cases d) (simp add: key_of_def voxelKey_inj)

lemma inj_key_of: "inj key_of"
  by (simp add: inj_def key_of_inj)

lemma key_gy_key_of: "key_gy (key_of c) = Num (of_int (cell_y c))"
  by (cases c) (simp add: key_gy_def key_of_def split_comma_voxelKey parseInt_show_int cell_y_def)

lemma update_extent_fields [simp]:
  "occupied (update_extent y g) = occupied g"
  "cellSize (update_extent y g) = cellSize g"
  "maxCells (update_extent y g) = maxCells g"
  by (simp_all add: update_extent_def Let_def)

lemma update_extent_Num:
  assumes "(minY g, maxY g) = extent_of cs"
  shows "(minY (update_extent (Num (of_int (cell_y c))) g), maxY (update_extent (Num (of_int (cell_y c))) g))
           = extent_of (cs @ [c])"
proof (cases "cs = []")
  case True
  with assms show ?thesis by (simp add: extent_of_def update_extent_def Let_def)
next
  case False
  then have ne: "cell_y ` set cs \<noteq> {}" and fin: "finite (cell_y ` set cs)" by simp_all
  define m where "m = Min (cell_y ` set cs)"
  define M where "M = Max (cell_y ` set cs)"
  have mM: "m \<le> M" unfolding m_def M_def using fin ne by simp
  have mn: "Min (cell_y ` set (cs @ [c])) = min (cell_y c) m"
    using Min_insert [OF fin ne] by (simp add: m_def)
  have mx: "Max (cell_y ` set (cs @ [c])) = max (cell_y c) M"
    using Max_insert [OF fin ne] by (simp add: M_def)
  have g: "minY g = Num (of_int m)" "maxY g = Num (of_int M)"
    using assms False by (simp_all add: extent_of_def m_def M_def)
  have "extent_of (cs @ [c]) = (Num (of_int (min (cell_y c) m)), Num (of_int (max (cell_y c) M)))"
    unfolding extent_of_def mn mx by simp
  then show ?thesis
    using mM by (simp add: update_extent_def Let_def g min_def max_def)
qed

lemma rescan_fields [simp]:
  "occupied (rescan ks g) = occupied g"
  "cellSize (rescan ks g) = cellSize g"
  "maxCells (rescan ks g) = maxCells g"
  by (induction ks arbitrary: g) simp_all

lemma rescan_extent:
  "(minY g, maxY g) = extent_of cs \<Longrightarrow>
   (minY (rescan (map key_of ds) g), maxY (rescan (map key_of ds) g)) = extent_of (cs @ ds)"
proof (induction ds arbitrary: g cs)
  case Nil
  then show ?case by simp
next
  case (Cons d ds)
  have "(minY (update_extent (key_gy (key_of d)) g), maxY (update_extent (key_gy (key_of d)) g))
          = extent_of (cs @ [d])"
    using update_extent_Num [OF Cons.prems] by (simp add: key_gy_key_of)
  from Cons.IH [OF this] show ?case by simp
qed

lemma remove1_map_key_of: "remove1 (key_of c) (map key_of cs) = map key_of (remove1 c cs)"
  by (induction cs) (auto simp: key_of_inj)

lemma grid_inv_new: "grid_inv (new_VoxelGrid s m) []"
  by (simp add: grid_inv_def new_VoxelGrid_def extent_of_def)

lemma grid_inv_clear: "grid_inv (clear g) []"
  by (simp add: grid_inv_def clear_def extent_of_def)

lemma grid_inv_has: "grid_inv g cs \<Longrightarrow> has g x y z \<longleftrightarrow> (x, y, z) \<in> set cs"
proof -
  assume "grid_inv g cs"
  then have "occupied g = map key_of cs" by (simp add: grid_inv_def)
  moreover have "voxelKey x y z = key_of (x, y, z)" by (simp add: key_of_def)
  ultimately show ?thesis
    using inj_key_of by (simp add: has_def inj_image_mem_iff)
qed

lemma grid_inv_count: "grid_inv g cs \<Longrightarrow> count g = int (length cs)"
  by (simp add: grid_inv_def count_def)

lemma grid_inv_add_ok:
  assumes "grid_inv g cs" "count g < maxCells g" "\<not> has g x y z"
  shows "fst (add g x y z)" "grid_inv (snd (add g x y z)) (cs @ [(x, y, z)])"
proof -
  have notin: "(x, y, z) \<notin> set cs" using assms grid_inv_has by blast
  have key: "voxelKey x y z \<notin> set (occupied g)" using assms(3) by (simp add: has_def)
  have eq: "add g x y z = (True, update_extent (Num (of_int y)) (g\<lparr>occupied := occupied g @ [voxelKey x y z]\<rparr>))"
    using assms(2) key by (simp add: add_def count_def)
  show "fst (add g x y z)" by (simp add: eq)
  have ext: "(minY (g\<lparr>occupied := occupied g @ [voxelKey x y z]\<rparr>), maxY (g\<lparr>occupied := occupied g @ [voxelKey x y z]\<rparr>)) = extent_of cs"
    using assms(1) by (simp add: grid_inv_def)
  have "cell_y (x, y, z) = y" by (simp add: cell_y_def)
  with update_extent_Num [OF ext, of "(x, y, z)"]
  show "grid_inv (snd (add g x y z)) (cs @ [(x, y, z)])"
    using assms(1) notin by (simp add: eq grid_inv_def key_of_def)
qed

lemma add_fail:
  "maxCells g \<le> count g \<or> has g x y z \<Longrightarrow> add g x y z = (False, g)"
  by (auto simp: add_def count_def has_def)

lemma grid_inv_remove_ok:
  assumes "grid_inv g cs" "has g x y z"
  shows "fst (remove g x y z)" "grid_inv (snd (remove g x y z)) (remove1 (x, y, z) cs)"
proof -
  have key: "voxelKey x y z \<in> set (occupied g)" using assms(2) by (simp add: has_def)
  let ?g2 = "g\<lparr>occupied := remove1 (voxelKey x y z) (occupied g), minY := PosInfinity, maxY := NegInfinity\<rparr>"
  have eq: "remove g x y z = (True, rescan (occupied ?g2) ?g2)"
    using key by (simp add: remove_def Let_def)
  show "fst (remove g x y z)" by (simp add: eq)
  have r1: "remove1 (voxelKey x y z) (map key_of cs) = map key_of (remove1 (x, y, z) cs)"
    using remove1_map_key_of [of "(x, y, z)" cs] by (simp add: key_of_def)
  have occ: "occupied ?g2 = map key_of (remove1 (x, y, z) cs)"
    using assms(1) r1 by (simp add: grid_inv_def)
  have "(minY ?g2, maxY ?g2) = extent_of []" by (simp add: extent_of_def)
  from rescan_extent [OF this, of "remove1 (x, y, z) cs"]
  show "grid_inv (snd (remove g x y z)) (remove1 (x, y, z) cs)"
    using assms(1) r1 by (simp add: eq grid_inv_def)
qed

lemma remove_fail: "\<not> has g x y z \<Longrightarrow> remove g x y z = (False, g)"
  by (simp add: remove_def has_def)

section \<open>Claims on the store and the grid conversions\<close>


lemma grid_step_inv:
  assumes "grid_inv g cs"
  shows "\<exists>cs'. grid_inv (grid_step g op) cs'"
proof (cases op)
  case (Add x y z)
  show ?thesis
  proof (cases "count g < maxCells g \<and> \<not> has g x y z")
    case True
    then show ?thesis using grid_inv_add_ok(2) [OF assms] Add by auto
  next
    case False
    then have "add g x y z = (False, g)" by (intro add_fail) auto
    then show ?thesis using assms Add by auto
  qed
next
  case (Remove x y z)
  show ?thesis
  proof (cases "has g x y z")
    case True
    then show ?thesis using grid_inv_remove_ok(2) [OF assms] Remove by auto
  next
    case False
    then show ?thesis using assms Remove by (auto simp: remove_fail)
  qed
next
  case Clear
  then show ?thesis using grid_inv_clear by auto
qed

lemma add_maxCells [simp]: "maxCells (snd (add g x y z)) = maxCells g"
  by (simp add: add_def Let_def)

lemma remove_maxCells [simp]: "maxCells (snd (remove g x y z)) = maxCells g"
  by (simp add: remove_def Let_def)

lemma grid_step_maxCells [simp]: "maxCells (grid_step g op) = maxCells g"
  by (cases op) (simp_all add: clear_def)

lemma add_count_le: "count g \<le> maxCells g \<Longrightarrow> count (snd (add g x y z)) \<le> maxCells g"
  by (simp add: add_def Let_def count_def)

lemma remove_count_le: "count (snd (remove g x y z)) \<le> count g"
  by (simp add: remove_def Let_def count_def length_remove1)

lemma grid_step_bound:
  "0 \<le> maxCells g \<Longrightarrow> count g \<le> maxCells g \<Longrightarrow> count (grid_step g op) \<le> maxCells g"
proof (cases op)
  case (Remove x y z)
  assume "count g \<le> maxCells g"
  then show ?thesis using remove_count_le [of g x y z] Remove by simp
qed (simp_all add: add_count_le, simp add: clear_def count_def)

lemma grid_run_snoc: "grid_run (ops @ [op]) g = grid_step (grid_run ops g) op"
  by (simp add: grid_run_def)

lemma grid_run_maxCells [simp]: "maxCells (grid_run ops g) = maxCells g"
  by (induction ops rule: rev_induct) (simp_all add: grid_run_snoc, simp add: grid_run_def)

lemma grid_run_inv: "\<exists>cs. grid_inv (grid_run ops (new_VoxelGrid s m)) cs"
proof (induction ops rule: rev_induct)
  case Nil
  show ?case using grid_inv_new by (auto simp: grid_run_def)
next
  case (snoc op ops)
  then show ?case using grid_step_inv by (auto simp: grid_run_snoc)
qed

lemma grid_run_bound:
  "0 \<le> m \<Longrightarrow> count (grid_run ops (new_VoxelGrid s m)) \<le> m"
proof (induction ops rule: rev_induct)
  case Nil
  then show ?case by (simp add: grid_run_def new_VoxelGrid_def count_def)
next
  case (snoc op ops)
  have "maxCells (grid_run ops (new_VoxelGrid s m)) = m" by (simp add: new_VoxelGrid_def)
  with snoc grid_step_bound [of "grid_run ops (new_VoxelGrid s m)" op]
  show ?case by (simp add: grid_run_snoc)
qed

lemma grid_inv_gys: "grid_inv g cs \<Longrightarrow> occupied_gys g = cell_y ` set cs"
proof -
  assume inv: "grid_inv g cs"
  have "occupied_gys g = {y. \<exists>x z. (x, y, z) \<in> set cs}"
    using grid_inv_has [OF inv] by (simp add: occupied_gys_def)
  also have "\<dots> = cell_y ` set cs"
    by (force simp: cell_y_def image_iff)
  finally show ?thesis .
qed

lemma grid_inv_getYRange:
  assumes "grid_inv g cs"
  shows "getYRange g =
     (if count g = 0 then (Num 0, Num 0)
      else (Num (of_int (Min (occupied_gys g))), Num (of_int (Max (occupied_gys g)))))"
proof -
  have len: "length (occupied g) = length cs" using assms by (simp add: grid_inv_def)
  have ext: "(minY g, maxY g) = extent_of cs" using assms by (simp add: grid_inv_def)
  show ?thesis
  proof (cases "cs = []")
    case True
    then show ?thesis using len by (simp add: getYRange_def count_def)
  next
    case False
    then show ?thesis
      using len ext grid_inv_gys [OF assms]
      by (simp add: getYRange_def count_def extent_of_def)
  qed
qed


lemma Math_round_nearest:
  fixes q :: real
  shows "\<bar>q - of_int (Math_round q)\<bar> \<le> \<bar>q - of_int k\<bar>"
proof (cases "k = Math_round q")
  case True
  then show ?thesis by simp
next
  case False
  have a: "of_int (Math_round q) \<le> q + 1 / 2" "q + 1 / 2 < of_int (Math_round q) + 1"
    unfolding Math_round_def by linarith+
  from False have "k \<le> Math_round q - 1 \<or> Math_round q + 1 \<le> k" by arith
  then have "(of_int k :: real) \<le> of_int (Math_round q) - 1 \<or> of_int (Math_round q) + 1 \<le> (of_int k :: real)"
    by (metis of_int_le_iff of_int_diff of_int_add of_int_1)
  with a show ?thesis by (auto simp: abs_if)
qed

lemma Math_round_of_int: "Math_round (of_int n) = n"
  unfolding Math_round_def by linarith

lemma nearest_center:
  fixes p s :: real
  assumes "s \<noteq> 0"
  shows "\<bar>p - of_int (Math_round (p / s)) * s\<bar> \<le> \<bar>p - of_int k * s\<bar>"
proof -
  have "\<bar>p - of_int j * s\<bar> = \<bar>s\<bar> * \<bar>p / s - of_int j\<bar>" for j :: int
  proof -
    have "p - of_int j * s = s * (p / s - of_int j)" using assms by (simp add: field_simps)
    then show ?thesis by (simp add: abs_mult)
  qed
  then show ?thesis
    using Math_round_nearest [of "p / s" k] by (simp add: mult_left_mono)
qed



text \<open>
  Claim C3. On every store reached from a fresh one by \<open>add\<close>/\<open>remove\<close>/\<open>clear\<close>:
  \<open>count \<le> maxCells\<close>; \<open>add\<close> returns false and changes nothing when the store is at
  capacity or the cell is occupied; otherwise it appends the cell, extends the vertical
  extent and returns true; at capacity every \<open>add\<close> and every failing \<open>remove\<close> leaves
  the store as it is, and after a successful \<open>remove\<close> an \<open>add\<close> of a free cell succeeds.
\<close>
theorem add_capacity_contract:
  assumes "0 \<le> m" and "g = grid_run ops (new_VoxelGrid s m)"
  shows "count g \<le> m
     \<and> (m \<le> count g \<or> has g x y z \<longrightarrow> add g x y z = (False, g))
     \<and> (count g < m \<and> \<not> has g x y z \<longrightarrow>
          fst (add g x y z) \<and>
          occupied (snd (add g x y z)) = occupied g @ [voxelKey x y z] \<and>
          has (snd (add g x y z)) x y z \<and>
          count (snd (add g x y z)) = count g + 1 \<and>
          (\<exists>lo hi. getYRange g = (Num (of_int lo), Num (of_int hi)) \<and>
             getYRange (snd (add g x y z)) =
               (if count g = 0 then (Num (of_int y), Num (of_int y))
                else (Num (of_int (min y lo)), Num (of_int (max y hi))))))
     \<and> (count g = m \<longrightarrow>
          (\<forall>a b c. add g a b c = (False, g)) \<and>
          (\<forall>a b c. \<not> has g a b c \<longrightarrow> remove g a b c = (False, g)) \<and>
          (\<forall>a b c. has g a b c \<longrightarrow>
             fst (remove g a b c) \<and> count (snd (remove g a b c)) = m - 1 \<and>
             (\<forall>u v w. \<not> has (snd (remove g a b c)) u v w \<longrightarrow>
                fst (add (snd (remove g a b c)) u v w)) \<and>
             fst (add (snd (remove g a b c)) a b c)))"
proof -
  obtain cs where inv: "grid_inv g cs"
    using grid_run_inv assms(2) by blast
  have mc: "maxCells g = m" using assms(2) by (simp add: new_VoxelGrid_def)
  have c1: "count g \<le> m" using grid_run_bound [OF assms(1)] assms(2) by simp
  have c2: "m \<le> count g \<or> has g x y z \<longrightarrow> add g x y z = (False, g)"
    using add_fail [of g x y z] mc by simp
  have c3: "fst (add g x y z) \<and>
          occupied (snd (add g x y z)) = occupied g @ [voxelKey x y z] \<and>
          has (snd (add g x y z)) x y z \<and>
          count (snd (add g x y z)) = count g + 1 \<and>
          (\<exists>lo hi. getYRange g = (Num (of_int lo), Num (of_int hi)) \<and>
             getYRange (snd (add g x y z)) =
               (if count g = 0 then (Num (of_int y), Num (of_int y))
                else (Num (of_int (min y lo)), Num (of_int (max y hi)))))"
    if ok: "count g < m" "\<not> has g x y z"
  proof -
    have lt: "count g < maxCells g" using ok mc by simp
    note a = grid_inv_add_ok [OF inv lt ok(2)]
    have occ: "occupied (snd (add g x y z)) = occupied g @ [voxelKey x y z]"
      using ok lt by (simp add: add_def count_def has_def)
    have h: "has (snd (add g x y z)) x y z"
      using grid_inv_has [OF a(2)] by simp
    have cnt: "count (snd (add g x y z)) = count g + 1"
      using occ by (simp add: count_def)
    have yr: "\<exists>lo hi. getYRange g = (Num (of_int lo), Num (of_int hi)) \<and>
             getYRange (snd (add g x y z)) =
               (if count g = 0 then (Num (of_int y), Num (of_int y))
                else (Num (of_int (min y lo)), Num (of_int (max y hi))))"
    proof (cases "cs = []")
      case True
      then have "count g = 0" using grid_inv_count [OF inv] by simp
      moreover have "getYRange g = (Num (of_int 0), Num (of_int 0))"
        using grid_inv_getYRange [OF inv] \<open>count g = 0\<close> by simp
      moreover have "getYRange (snd (add g x y z)) = (Num (of_int y), Num (of_int y))"
        using grid_inv_getYRange [OF a(2)] cnt \<open>count g = 0\<close>
          grid_inv_gys [OF a(2)] True by (simp add: cell_y_def)
      ultimately show ?thesis
        by (intro exI [of _ 0]) simp
    next
      case False
      then have ne: "count g \<noteq> 0" using grid_inv_count [OF inv] by simp
      have fin: "finite (cell_y ` set cs)" "cell_y ` set cs \<noteq> {}" using False by simp_all
      have g1: "getYRange g = (Num (of_int (Min (cell_y ` set cs))), Num (of_int (Max (cell_y ` set cs))))"
        using grid_inv_getYRange [OF inv] ne grid_inv_gys [OF inv] by simp
      have "count (snd (add g x y z)) \<noteq> 0" using cnt grid_inv_count [OF inv] by simp
      then have g2: "getYRange (snd (add g x y z)) =
          (Num (of_int (min y (Min (cell_y ` set cs)))), Num (of_int (max y (Max (cell_y ` set cs)))))"
        using grid_inv_getYRange [OF a(2)] grid_inv_gys [OF a(2)]
          Min_insert [OF fin] Max_insert [OF fin]
        by (simp add: cell_y_def)
      show ?thesis
        by (rule exI [of _ "Min (cell_y ` set cs)"], rule exI [of _ "Max (cell_y ` set cs)"])
          (simp add: g1 g2 ne)
    qed
    show ?thesis using a(1) occ h cnt yr by blast
  qed
  have c4: "(\<forall>a b c. add g a b c = (False, g)) \<and>
          (\<forall>a b c. \<not> has g a b c \<longrightarrow> remove g a b c = (False, g)) \<and>
          (\<forall>a b c. has g a b c \<longrightarrow>
             fst (remove g a b c) \<and> count (snd (remove g a b c)) = m - 1 \<and>
             (\<forall>u v w. \<not> has (snd (remove g a b c)) u v w \<longrightarrow>
                fst (add (snd (remove g a b c)) u v w)) \<and>
             fst (add (snd (remove g a b c)) a b c))"
    if full: "count g = m"
  proof (intro conjI allI impI)
    fix a b c
    show "add g a b c = (False, g)" using add_fail [of g a b c] mc full by simp
    show "remove g a b c = (False, g)" if "\<not> has g a b c" using that by (rule remove_fail)
  next
    fix a b c
    assume h: "has g a b c"
    note r = grid_inv_remove_ok [OF inv h]
    show "fst (remove g a b c)" by (rule r(1))
    have mem: "(a, b, c) \<in> set cs" using grid_inv_has [OF inv] h by simp
    show cnt: "count (snd (remove g a b c)) = m - 1"
      using grid_inv_count [OF r(2)] grid_inv_count [OF inv] full mem
      by (simp add: length_remove1) (metis One_nat_def Suc_pred length_pos_if_in_set of_nat_Suc add_diff_cancel_right' add.commute)
    have d: "distinct cs" using inv by (simp add: grid_inv_def)
    have lt: "count (snd (remove g a b c)) < maxCells (snd (remove g a b c))"
      using cnt mc by simp
    show "fst (add (snd (remove g a b c)) u v w)" if "\<not> has (snd (remove g a b c)) u v w" for u v w
      using grid_inv_add_ok(1) [OF r(2) lt that] .
    have "\<not> has (snd (remove g a b c)) a b c"
      using grid_inv_has [OF r(2)] d by simp
    then show "fst (add (snd (remove g a b c)) a b c)"
      using grid_inv_add_ok(1) [OF r(2) lt] by blast
  qed
  from c1 c2 c3 c4 show ?thesis by blast
qed

theorem add_capacity_contract_witness:
  "(0::int) \<le> 2 \<and>
   count (grid_run [Add 0 0 0, Add 0 1 0] (new_VoxelGrid 0.45 2)) = 2 \<and>
   has (grid_run [Add 0 0 0, Add 0 1 0] (new_VoxelGrid 0.45 2)) 0 1 0 \<and>
   add (grid_run [Add 0 0 0, Add 0 1 0] (new_VoxelGrid 0.45 2)) 5 5 5
     = (False, grid_run [Add 0 0 0, Add 0 1 0] (new_VoxelGrid 0.45 2)) \<and>
   fst (remove (grid_run [Add 0 0 0, Add 0 1 0] (new_VoxelGrid 0.45 2)) 0 1 0) \<and>
   fst (add (snd (remove (grid_run [Add 0 0 0, Add 0 1 0] (new_VoxelGrid 0.45 2)) 0 1 0)) 0 1 0)"
proof -
  let ?g = "grid_run [Add 0 0 0, Add 0 1 0] (new_VoxelGrid 0.45 2)"
  have k: "voxelKey 0 0 0 = ''0,0,0''" "voxelKey 0 1 0 = ''0,1,0''"
    by (simp_all add: voxelKey_def show_int_def show_nat.simps digit_char_def)
  have occ: "occupied ?g = [''0,0,0'', ''0,1,0'']"
    by (simp add: grid_run_def new_VoxelGrid_def add_def k update_extent_def)
  have c: "count ?g = 2" using occ by (simp add: count_def)
  have h: "has ?g 0 1 0" using occ by (simp add: has_def k)
  have z: "(0::int) \<le> 2" by simp
  from add_capacity_contract [OF z refl, of "[Add 0 0 0, Add 0 1 0]" "0.45" 5 5 5] c h
  show ?thesis by simp
qed

section \<open>The render buffer keeps its invariant\<close>


lemma findIndex_None_iff: "findIndex P xs = None \<longleftrightarrow> (\<forall>x \<in> set xs. \<not> P x)"
  by (induction xs) (auto split: option.splits)

lemma findIndex_Some_D: "findIndex P xs = Some i \<Longrightarrow> i < length xs \<and> P (xs ! i)"
  by (induction xs arbitrary: i) (auto split: if_splits option.splits)

lemma findIndex_map: "findIndex P (map f xs) = findIndex (\<lambda>x. P (f x)) xs"
  by (induction xs) auto

lemma splice1_Cons_Suc: "splice1 (Suc i) (x # xs) = x # splice1 i xs"
  by (simp add: splice1_def)

lemma splice1_filter:
  "distinct (map k xs) \<Longrightarrow> findIndex (\<lambda>b. k b = v) xs = Some i
     \<Longrightarrow> splice1 i xs = filter (\<lambda>b. k b \<noteq> v) xs"
proof (induction xs arbitrary: i)
  case Nil
  then show ?case by simp
next
  case (Cons a as)
  show ?case
  proof (cases "k a = v")
    case True
    then have i: "i = 0" using Cons.prems(2) by simp
    have "\<forall>b \<in> set as. k b \<noteq> v" using Cons.prems(1) True by (force simp: image_iff)
    then have "filter (\<lambda>b. k b \<noteq> v) as = as" by (simp add: filter_id_conv)
    then show ?thesis using True i by (simp add: splice1_def)
  next
    case False
    then obtain j where j: "findIndex (\<lambda>b. k b = v) as = Some j" "i = Suc j"
      using Cons.prems(2) by (auto split: option.splits)
    have "splice1 j as = filter (\<lambda>b. k b \<noteq> v) as"
      using Cons.IH [OF _ j(1)] Cons.prems(1) by simp
    then show ?thesis using False j(2) by (simp add: splice1_Cons_Suc)
  qed
qed

lemma splice1_map: "splice1 i (map f xs) = map f (splice1 i xs)"
  by (simp add: splice1_def take_map drop_map)

lemma length_splice1: "i < length xs \<Longrightarrow> length (splice1 i xs) = length xs - 1"
  by (auto simp: splice1_def)

lemma update_first_map:
  "distinct (map k xs) \<Longrightarrow>
   update_first (\<lambda>b. k b = v) f xs = map (\<lambda>b. if k b = v then f b else b) xs"
proof (induction xs)
  case Nil
  then show ?case by simp
next
  case (Cons a as)
  show ?case
  proof (cases "k a = v")
    case True
    have "\<forall>b \<in> set as. k b \<noteq> v" using Cons.prems True by (force simp: image_iff)
    then have "map (\<lambda>b. if k b = v then f b else b) as = as" by (simp add: map_idI)
    then show ?thesis using True by simp
  next
    case False
    then show ?thesis using Cons by simp
  qed
qed

lemma render_inv_dense:
  assumes "render_inv r"
  shows "instanceIndex ` set (boxes r) = {0 ..< instanceCount r}"
proof -
  have sub: "instanceIndex ` set (boxes r) \<subseteq> {0 ..< instanceCount r}"
    using assms by (auto simp: render_inv_def)
  have "card (instanceIndex ` set (boxes r)) = length (boxes r)"
    using assms distinct_card [of "map instanceIndex (boxes r)"] by (simp add: render_inv_def)
  also have "\<dots> = card {0 ..< instanceCount r}"
    using assms by (simp add: render_inv_def)
  finally show ?thesis
    using sub by (simp add: card_subset_eq)
qed

lemma render_inv_last:
  assumes "render_inv r" "boxes r \<noteq> []"
  shows "\<exists>l \<in> set (boxes r). instanceIndex l = instanceCount r - 1"
proof -
  have "0 < instanceCount r" using assms by (simp add: render_inv_def)
  then have "instanceCount r - 1 \<in> {0 ..< instanceCount r}" by simp
  then have "instanceCount r - 1 \<in> instanceIndex ` set (boxes r)"
    using render_inv_dense [OF assms(1)] by simp
  then show ?thesis by force
qed

lemma render_inv_index_inj:
  "render_inv r \<Longrightarrow> a \<in> set (boxes r) \<Longrightarrow> b \<in> set (boxes r)
     \<Longrightarrow> instanceIndex a = instanceIndex b \<Longrightarrow> a = b"
  by (auto simp: render_inv_def distinct_map dest: inj_onD)

lemma render_inv_cell_inj:
  "render_inv r \<Longrightarrow> a \<in> set (boxes r) \<Longrightarrow> b \<in> set (boxes r)
     \<Longrightarrow> cell_of a = cell_of b \<Longrightarrow> a = b"
  by (auto simp: render_inv_def distinct_map dest: inj_onD)

lemma cell_of_relabel [simp]: "cell_of (relabel l k b) = cell_of b"
  by (simp add: relabel_def cell_of_def)

lemma box_pos_relabel [simp]: "box_pos (relabel l k b) = box_pos b"
  by (simp add: relabel_def box_pos_def)

text \<open>The colour pass touches nothing but the colour attribute.\<close>
lemma setColorAt_fields [simp]:
  "capacity (setColorAt m i c) = capacity m"
  "count_mesh (setColorAt m i c) = count_mesh m"
  "instanceMatrix (setColorAt m i c) = instanceMatrix m"
  "instanceColor (setColorAt m i c) \<noteq> None"
  by (simp_all add: setColorAt_def Let_def)

lemma setColorAt_color_Some [simp]: "\<exists>a. instanceColor (setColorAt m i c) = Some a"
  by (simp add: setColorAt_def Let_def)

lemma setMatrixAt_fields [simp]:
  "capacity (setMatrixAt m i v) = capacity m"
  "count_mesh (setMatrixAt m i v) = count_mesh m"
  "instanceColor (setMatrixAt m i v) = instanceColor m"
  by (simp_all add: setMatrixAt_def)

lemma fold_setColorAt_fields:
  "capacity (fold (\<lambda>box m. setColorAt m (ix box) (col box)) bs m) = capacity m"
  "count_mesh (fold (\<lambda>box m. setColorAt m (ix box) (col box)) bs m) = count_mesh m"
  "instanceMatrix (fold (\<lambda>box m. setColorAt m (ix box) (col box)) bs m) = instanceMatrix m"
  by (induction bs arbitrary: m) simp_all

lemma fold_setColorAt_color:
  "instanceColor (fold (\<lambda>box m. setColorAt m (ix box) (col box)) bs m) = None
     \<longleftrightarrow> bs = [] \<and> instanceColor m = None"
  by (induction bs arbitrary: m) simp_all

lemma updateAllColors_fields [simp]:
  "instanceCount (updateAllColors r g) = instanceCount r"
  "boxes (updateAllColors r g) = boxes r"
  "edgeGroup (updateAllColors r g) = edgeGroup r"
  "palette (updateAllColors r g) = palette r"
  "rotation (updateAllColors r g) = rotation r"
  "targetRotX (updateAllColors r g) = targetRotX r"
  "targetRotY (updateAllColors r g) = targetRotY r"
  "eraseMode_r (updateAllColors r g) = eraseMode_r r"
  "ghostVisible (updateAllColors r g) = ghostVisible r"
  "ghostPosition (updateAllColors r g) = ghostPosition r"
  by (simp_all add: updateAllColors_def Let_def split: prod.splits)

lemma updateAllColors_mesh [simp]:
  "capacity (instancedMesh (updateAllColors r g)) = capacity (instancedMesh r)"
  "count_mesh (instancedMesh (updateAllColors r g)) = count_mesh (instancedMesh r)"
  "instanceMatrix (instancedMesh (updateAllColors r g)) = instanceMatrix (instancedMesh r)"
  by (simp_all add: updateAllColors_def Let_def fold_setColorAt_fields split: prod.splits)

lemma updateAllColors_color:
  "instanceColor (instancedMesh (updateAllColors r g)) = None
     \<longleftrightarrow> boxes r = [] \<and> instanceColor (instancedMesh r) = None"
  by (simp add: updateAllColors_def Let_def fold_setColorAt_color split: prod.splits)

lemma getMatrixAt_updateAllColors [simp]:
  "getMatrixAt (instancedMesh (updateAllColors r g)) i = getMatrixAt (instancedMesh r) i"
  by (simp add: getMatrixAt_def)

lemma render_inv_updateAllColors: "render_inv r \<Longrightarrow> render_inv (updateAllColors r g)"
  by (auto simp: render_inv_def updateAllColors_color)

lemma cell_pred_eq:
  "(\<lambda>b. gx b = x \<and> gy b = y \<and> gz b = z) = (\<lambda>b. cell_of b = (x, y, z))"
  by (auto simp: cell_of_def)

lemma relabel_same [simp]: "relabel l l b = b"
  by (simp add: relabel_def)

lemma map_relabel_same [simp]: "map (relabel l l) xs = xs"
  by (simp add: map_idI)

lemma removeBox_compact_absent:
  "\<forall>b \<in> set (boxes r). cell_of b \<noteq> (x, y, z) \<Longrightarrow> removeBox_compact r x y z = Inr (False, r)"
  by (simp add: removeBox_compact_def cell_pred_eq findIndex_None_iff [THEN iffD2])

lemma removeBox_compact_present:
  assumes inv: "render_inv r" and mem: "b \<in> set (boxes r)" and cell: "cell_of b = (x, y, z)"
  shows "\<exists>r' idx.
      removeBox_compact r x y z = Inr (True, r') \<and>
      findIndex (\<lambda>b. cell_of b = (x, y, z)) (boxes r) = Some idx \<and>
      boxes r' = filter (\<lambda>b'. cell_of b' \<noteq> (x, y, z))
                   (map (relabel (instanceCount r - 1) (instanceIndex b)) (boxes r)) \<and>
      instanceCount r' = instanceCount r - 1 \<and>
      instancedMesh r' =
        (if instanceIndex b \<noteq> instanceCount r - 1
         then setColorAt
                (setMatrixAt (instancedMesh r) (instanceIndex b)
                   (getMatrixAt (instancedMesh r) (instanceCount r - 1)))
                (instanceIndex b)
                (getColorAt
                   (setMatrixAt (instancedMesh r) (instanceIndex b)
                      (getMatrixAt (instancedMesh r) (instanceCount r - 1)))
                   (instanceCount r - 1))
         else instancedMesh r)\<lparr>count_mesh := instanceCount r - 1\<rparr> \<and>
      edgeGroup r' = (if idx < length (edgeGroup r) then splice1 idx (edgeGroup r)
                      else edgeGroup r) \<and>
      palette r' = palette r \<and> rotation r' = rotation r \<and>
      targetRotX r' = targetRotX r \<and> targetRotY r' = targetRotY r \<and>
      eraseMode_r r' = eraseMode_r r \<and> ghostVisible r' = ghostVisible r \<and>
      ghostPosition r' = ghostPosition r"
proof -
  let ?P = "\<lambda>b. cell_of b = (x, y, z)"
  let ?n = "instanceCount r"
  let ?k = "instanceIndex b"
  have "findIndex ?P (boxes r) \<noteq> None"
    using mem cell by (auto simp: findIndex_None_iff)
  then obtain idx where idx: "findIndex ?P (boxes r) = Some idx" by auto
  have idx_lt: "idx < length (boxes r)" and "?P (boxes r ! idx)"
    using findIndex_Some_D [OF idx] by auto
  then have at: "boxes r ! idx = b"
    using render_inv_cell_inj [OF inv _ mem] cell by (metis nth_mem)
  have dc: "distinct (map cell_of (boxes r))" and di: "distinct (map instanceIndex (boxes r))"
    using inv by (simp_all add: render_inv_def)
  have ne: "boxes r \<noteq> []" using mem by auto
  have col: "instanceColor (instancedMesh r) \<noteq> None" using inv ne by (simp add: render_inv_def)
  show ?thesis
  proof (cases "?k = ?n - 1")
    case True
    have "splice1 idx (boxes r) = filter (\<lambda>b'. cell_of b' \<noteq> (x, y, z)) (boxes r)"
      using splice1_filter [OF dc idx] .
    then show ?thesis
      using True idx at by (simp add: removeBox_compact_def cell_pred_eq Let_def)
  next
    case False
    have "find (\<lambda>b. instanceIndex b = ?n - 1) (boxes r) \<noteq> None"
      using render_inv_last [OF inv ne] by (auto simp: find_None_iff)
    then obtain l where l: "find (\<lambda>b. instanceIndex b = ?n - 1) (boxes r) = Some l" by auto
    have uf: "update_first (\<lambda>b. instanceIndex b = ?n - 1) (\<lambda>ba. ba\<lparr>instanceIndex := ?k\<rparr>) (boxes r)
                = map (relabel (?n - 1) ?k) (boxes r)"
      using update_first_map [OF di, of "?n - 1" "\<lambda>ba. ba\<lparr>instanceIndex := ?k\<rparr>"]
      by (simp add: relabel_def [abs_def])
    have dc': "distinct (map cell_of (map (relabel (?n - 1) ?k) (boxes r)))"
      using dc by (simp add: comp_def)
    have idx': "findIndex ?P (map (relabel (?n - 1) ?k) (boxes r)) = Some idx"
      using idx by (simp add: findIndex_map)
    have sp: "splice1 idx (map (relabel (?n - 1) ?k) (boxes r))
                = filter (\<lambda>b'. cell_of b' \<noteq> (x, y, z)) (map (relabel (?n - 1) ?k) (boxes r))"
      using splice1_filter [OF dc' idx'] .
    show ?thesis
      using False idx at l col
      by (simp add: removeBox_compact_def cell_pred_eq Let_def uf sp)
  qed
qed

lemma filter_cell_relabel:
  "filter (\<lambda>b'. cell_of b' \<noteq> c) (map (relabel l k) bs)
     = map (relabel l k) (filter (\<lambda>b'. cell_of b' \<noteq> c) bs)"
  by (simp add: filter_map comp_def)

lemma compact_cells:
  assumes "distinct (map cell_of bs)"
  shows "map cell_of (filter (\<lambda>b'. cell_of b' \<noteq> c) (map (relabel l k) bs))
           = remove1 c (map cell_of bs)"
proof -
  have "map cell_of (filter (\<lambda>b'. cell_of b' \<noteq> c) (map (relabel l k) bs))
          = filter (\<lambda>d. d \<noteq> c) (map cell_of bs)"
    by (simp add: filter_cell_relabel filter_map comp_def)
  also have "\<dots> = removeAll c (map cell_of bs)"
    by (induction bs) auto
  also have "\<dots> = remove1 c (map cell_of bs)"
    using assms by (simp add: distinct_remove1_removeAll)
  finally show ?thesis .
qed

lemma compact_indices:
  assumes inv: "render_inv r" and mem: "b \<in> set (boxes r)"
    and b': "b' \<in> set (filter (\<lambda>d. cell_of d \<noteq> cell_of b)
                    (map (relabel (instanceCount r - 1) (instanceIndex b)) (boxes r)))"
  shows "0 \<le> instanceIndex b' \<and> instanceIndex b' < instanceCount r - 1"
proof -
  from b' obtain b0 where b0: "b0 \<in> set (boxes r)" "cell_of b0 \<noteq> cell_of b"
    and eq: "b' = relabel (instanceCount r - 1) (instanceIndex b) b0"
    by (auto simp: filter_cell_relabel)
  have rng: "\<And>d. d \<in> set (boxes r) \<Longrightarrow> 0 \<le> instanceIndex d \<and> instanceIndex d < instanceCount r"
    using inv by (auto simp: render_inv_def)
  have neq: "instanceIndex b0 \<noteq> instanceIndex b"
    using render_inv_index_inj [OF inv b0(1) mem] b0(2) by auto
  show ?thesis
  proof (cases "instanceIndex b0 = instanceCount r - 1")
    case True
    then have "instanceIndex b' = instanceIndex b" using eq by (simp add: relabel_def)
    then show ?thesis using rng [OF mem] neq True by simp
  next
    case False
    then have "instanceIndex b' = instanceIndex b0" using eq by (simp add: relabel_def)
    then show ?thesis using rng [OF b0(1)] False by simp
  qed
qed

lemma compact_distinct_indices:
  assumes inv: "render_inv r" and mem: "b \<in> set (boxes r)"
  shows "distinct (map instanceIndex
           (filter (\<lambda>d. cell_of d \<noteq> cell_of b)
              (map (relabel (instanceCount r - 1) (instanceIndex b)) (boxes r))))"
proof -
  let ?g = "relabel (instanceCount r - 1) (instanceIndex b)"
  let ?xs = "filter (\<lambda>d. cell_of d \<noteq> cell_of b) (boxes r)"
  have "distinct (boxes r)" using inv by (auto simp: render_inv_def distinct_map)
  then have dx: "distinct ?xs" by simp
  have inj: "inj_on (\<lambda>d. instanceIndex (?g d)) (set ?xs)"
  proof (rule inj_onI)
    fix u v
    assume u: "u \<in> set ?xs" and v: "v \<in> set ?xs"
      and e: "instanceIndex (?g u) = instanceIndex (?g v)"
    have uu: "u \<in> set (boxes r)" "instanceIndex u \<noteq> instanceIndex b"
      using u render_inv_index_inj [OF inv _ mem, of u] by auto
    have vv: "v \<in> set (boxes r)" "instanceIndex v \<noteq> instanceIndex b"
      using v render_inv_index_inj [OF inv _ mem, of v] by auto
    have "instanceIndex u = instanceIndex v"
      using e uu(2) vv(2) by (auto simp: relabel_def split: if_splits)
    then show "u = v" using render_inv_index_inj [OF inv uu(1) vv(1)] by simp
  qed
  have "distinct (map (\<lambda>d. instanceIndex (?g d)) ?xs)"
    using dx inj by (simp add: distinct_map)
  then show ?thesis by (simp add: filter_cell_relabel comp_def)
qed

lemma render_inv_removeBox_compact:
  assumes inv: "render_inv r" and res: "removeBox_compact r x y z = Inr (found, r')"
  shows "render_inv r'"
proof (cases "\<exists>b \<in> set (boxes r). cell_of b = (x, y, z)")
  case False
  then show ?thesis using inv res by (simp add: removeBox_compact_absent)
next
  case True
  then obtain b where mem: "b \<in> set (boxes r)" and cell: "cell_of b = (x, y, z)" by auto
  from removeBox_compact_present [OF inv mem cell] res
  have bx: "boxes r' = filter (\<lambda>b'. cell_of b' \<noteq> cell_of b)
                   (map (relabel (instanceCount r - 1) (instanceIndex b)) (boxes r))"
    and ic: "instanceCount r' = instanceCount r - 1"
    and im: "instancedMesh r' =
        (if instanceIndex b \<noteq> instanceCount r - 1
         then setColorAt
                (setMatrixAt (instancedMesh r) (instanceIndex b)
                   (getMatrixAt (instancedMesh r) (instanceCount r - 1)))
                (instanceIndex b)
                (getColorAt
                   (setMatrixAt (instancedMesh r) (instanceIndex b)
                      (getMatrixAt (instancedMesh r) (instanceCount r - 1)))
                   (instanceCount r - 1))
         else instancedMesh r)\<lparr>count_mesh := instanceCount r - 1\<rparr>"
    using cell by auto
  have dc: "distinct (map cell_of (boxes r))" using inv by (simp add: render_inv_def)
  have cells: "map cell_of (boxes r') = remove1 (cell_of b) (map cell_of (boxes r))"
    unfolding bx by (rule compact_cells [OF dc])
  have "cell_of b \<in> set (map cell_of (boxes r))" using mem by simp
  then have "length (map cell_of (boxes r')) = length (map cell_of (boxes r)) - 1"
    unfolding cells by (simp add: length_remove1)
  then have len: "length (boxes r') = length (boxes r) - 1" by simp
  have pos: "0 < length (boxes r)" using mem by (cases "boxes r") auto
  have n: "instanceCount r = int (length (boxes r))" using inv by (simp add: render_inv_def)
  have "int (length (boxes r) - 1) = int (length (boxes r)) - 1" using pos by arith
  then have c1: "instanceCount r' = int (length (boxes r'))" using ic len n by simp
  have c2: "count_mesh (instancedMesh r') = instanceCount r'" using im ic by simp
  have c3: "instanceCount r' \<le> capacity (instancedMesh r')"
    using im ic inv by (simp add: render_inv_def)
  have c4: "distinct (map instanceIndex (boxes r'))"
    unfolding bx by (rule compact_distinct_indices [OF inv mem])
  have c5: "\<forall>d \<in> set (boxes r'). 0 \<le> instanceIndex d \<and> instanceIndex d < instanceCount r'"
    unfolding bx ic using compact_indices [OF inv mem] by blast
  have c6: "distinct (map cell_of (boxes r'))"
    unfolding cells using dc by simp
  have "instanceColor (instancedMesh r) \<noteq> None" using inv mem by (auto simp: render_inv_def)
  then have c7: "instanceColor (instancedMesh r') \<noteq> None" using im by simp
  show ?thesis
    unfolding render_inv_def using c1 c2 c3 c4 c5 c6 c7 by blast
qed

lemma getMatrixAt_setMatrixAt:
  "getMatrixAt (setMatrixAt m i v) j =
     (if 0 \<le> i \<and> i < capacity m \<and> j = i then v else getMatrixAt m j)"
  by (cases "0 \<le> i"; cases "i < capacity m"; cases "j = i")
    (simp_all add: getMatrixAt_def setMatrixAt_def)

lemma getMatrixAt_setColorAt [simp]: "getMatrixAt (setColorAt m i c) j = getMatrixAt m j"
  by (simp add: getMatrixAt_def)

lemma getMatrixAt_count_mesh [simp]: "getMatrixAt (m\<lparr>count_mesh := k\<rparr>) j = getMatrixAt m j"
  by (simp add: getMatrixAt_def)

lemma add_cellSize [simp]: "cellSize (snd (add g x y z)) = cellSize g"
  by (simp add: add_def Let_def)

lemma remove_cellSize [simp]: "cellSize (snd (remove g x y z)) = cellSize g"
  by (simp add: remove_def Let_def)

lemma gridToWorld_cong: "cellSize g' = cellSize g \<Longrightarrow> gridToWorld g' p = gridToWorld g p"
  by (simp add: gridToWorld_def)

lemma sync_inv_updateAllColors: "sync_inv g r \<Longrightarrow> sync_inv g (updateAllColors r g2)"
  by (simp add: sync_inv_def render_inv_updateAllColors)

lemma sync_inv_count: "sync_inv g r \<Longrightarrow> instanceCount r = count g"
  by (simp add: sync_inv_def render_inv_def grid_inv_def count_def)


lemma addBox_fields [simp]:
  "boxes (addBox r g x y z) = boxes r @ [\<lparr>gx = x, gy = y, gz = z, instanceIndex = instanceCount r\<rparr>]"
  "instanceCount (addBox r g x y z) = instanceCount r + 1"
  "edgeGroup (addBox r g x y z) = edgeGroup r @ [gridToWorld g \<lparr>gx = x, gy = y, gz = z\<rparr>]"
  "capacity (instancedMesh (addBox r g x y z)) = capacity (instancedMesh r)"
  "count_mesh (instancedMesh (addBox r g x y z)) = instanceCount r + 1"
  "instanceColor (instancedMesh (addBox r g x y z)) \<noteq> None"
  by (simp_all add: addBox_def Let_def updateAllColors_color)

lemma addBox_getMatrixAt:
  "getMatrixAt (instancedMesh (addBox r g x y z)) j =
     (if 0 \<le> instanceCount r \<and> instanceCount r < capacity (instancedMesh r) \<and> j = instanceCount r
      then Some (gridToWorld g \<lparr>gx = x, gy = y, gz = z\<rparr>)
      else getMatrixAt (instancedMesh r) j)"
  by (simp add: addBox_def Let_def getMatrixAt_setMatrixAt)

lemma sync_addBox:
  assumes s: "sync_inv g r" and lt: "count g < maxCells g" and nh: "\<not> has g x y z"
  shows "sync_inv (snd (add g x y z)) (addBox r (snd (add g x y z)) x y z)"
proof -
  let ?g = "snd (add g x y z)"
  let ?n = "instanceCount r"
  let ?r = "addBox r ?g x y z"
  have ri: "render_inv r" and gi: "grid_inv g (map cell_of (boxes r))"
    and cap: "capacity (instancedMesh r) = maxCells g"
    and mats: "\<And>b. b \<in> set (boxes r) \<Longrightarrow>
        getMatrixAt (instancedMesh r) (instanceIndex b) = Some (gridToWorld g (box_pos b))"
    and edges: "edgeGroup r = map (\<lambda>b. gridToWorld g (box_pos b)) (boxes r)"
    using s by (simp_all add: sync_inv_def)
  have n: "?n = count g" using sync_inv_count [OF s] .
  have len: "?n = int (length (boxes r))" using ri by (simp add: render_inv_def)
  have n0: "0 \<le> ?n" using len by simp
  have ncap: "?n < capacity (instancedMesh r)" using n lt cap by simp
  have rng: "\<And>d. d \<in> set (boxes r) \<Longrightarrow> 0 \<le> instanceIndex d \<and> instanceIndex d < ?n"
    using ri unfolding render_inv_def by blast
  have di: "distinct (map instanceIndex (boxes r))" and dc: "distinct (map cell_of (boxes r))"
    using ri unfolding render_inv_def by blast+
  have notin: "(x, y, z) \<notin> cell_of ` set (boxes r)"
    using grid_inv_has [OF gi] nh by simp
  have nin: "?n \<notin> instanceIndex ` set (boxes r)"
  proof
    assume "?n \<in> instanceIndex ` set (boxes r)"
    then obtain d where "d \<in> set (boxes r)" "instanceIndex d = ?n" by auto
    then show False using rng [of d] by simp
  qed
  have gw: "\<And>p. gridToWorld ?g p = gridToWorld g p" by (rule gridToWorld_cong) simp
  have c1: "instanceCount ?r = int (length (boxes ?r))" using len by simp
  have c2: "count_mesh (instancedMesh ?r) = instanceCount ?r" by simp
  have c3: "instanceCount ?r \<le> capacity (instancedMesh ?r)" using ncap by simp
  have c4: "distinct (map instanceIndex (boxes ?r))" using di nin by simp
  have c5: "\<forall>b\<in>set (boxes ?r). 0 \<le> instanceIndex b \<and> instanceIndex b < instanceCount ?r"
  proof
    fix b assume "b \<in> set (boxes ?r)"
    then have "b \<in> set (boxes r) \<or> instanceIndex b = ?n" by auto
    then show "0 \<le> instanceIndex b \<and> instanceIndex b < instanceCount ?r"
      using rng [of b] n0 by auto
  qed
  have c6: "distinct (map cell_of (boxes ?r))" using dc notin by (simp add: cell_of_def)
  have c7: "boxes ?r \<noteq> [] \<longrightarrow> instanceColor (instancedMesh ?r) \<noteq> None" by simp
  have r1: "render_inv ?r"
    unfolding render_inv_def using c1 c2 c3 c4 c5 c6 c7 by blast
  have g1: "grid_inv ?g (map cell_of (boxes ?r))"
    using grid_inv_add_ok(2) [OF gi lt nh] by (simp add: cell_of_def)
  have k1: "capacity (instancedMesh ?r) = maxCells ?g" using cap by simp
  have m1: "\<forall>b \<in> set (boxes ?r).
        getMatrixAt (instancedMesh ?r) (instanceIndex b) = Some (gridToWorld ?g (box_pos b))"
  proof
    fix b assume "b \<in> set (boxes ?r)"
    then consider "b \<in> set (boxes r)" | "b = \<lparr>gx = x, gy = y, gz = z, instanceIndex = ?n\<rparr>"
      by auto
    then show "getMatrixAt (instancedMesh ?r) (instanceIndex b) = Some (gridToWorld ?g (box_pos b))"
    proof cases
      case 1
      then have "instanceIndex b \<noteq> ?n" using rng [of b] by simp
      then show ?thesis using mats [OF 1] by (simp add: addBox_getMatrixAt gw)
    next
      case 2
      then show ?thesis using n0 ncap by (simp add: addBox_getMatrixAt box_pos_def)
    qed
  qed
  have e1: "edgeGroup ?r = map (\<lambda>b. gridToWorld ?g (box_pos b)) (boxes ?r)"
    using edges by (simp add: gw box_pos_def)
  show ?thesis
    unfolding sync_inv_def by (intro conjI r1 g1 k1 m1 e1)
qed


lemma sync_removeBox:
  assumes s: "sync_inv g r" and h: "has g x y z"
  shows "\<exists>r'. removeBox r (snd (remove g x y z)) x y z = Inr (True, r') \<and>
              sync_inv (snd (remove g x y z)) r'"
proof -
  let ?g = "snd (remove g x y z)"
  let ?n = "instanceCount r"
  have ri: "render_inv r" and gi: "grid_inv g (map cell_of (boxes r))"
    and cap: "capacity (instancedMesh r) = maxCells g"
    and mats: "\<And>b. b \<in> set (boxes r) \<Longrightarrow>
        getMatrixAt (instancedMesh r) (instanceIndex b) = Some (gridToWorld g (box_pos b))"
    and edges: "edgeGroup r = map (\<lambda>b. gridToWorld g (box_pos b)) (boxes r)"
    using s by (simp_all add: sync_inv_def)
  have "(x, y, z) \<in> set (map cell_of (boxes r))" using grid_inv_has [OF gi] h by simp
  then obtain b where mem: "b \<in> set (boxes r)" and cell: "cell_of b = (x, y, z)" by auto
  let ?k = "instanceIndex b"
  let ?bs = "filter (\<lambda>b'. cell_of b' \<noteq> (x, y, z)) (map (relabel (?n - 1) ?k) (boxes r))"
  let ?m1 = "setMatrixAt (instancedMesh r) ?k (getMatrixAt (instancedMesh r) (?n - 1))"
  from removeBox_compact_present [OF ri mem cell]
  obtain r1 idx where rc: "removeBox_compact r x y z = Inr (True, r1)"
    and idx: "findIndex (\<lambda>b. cell_of b = (x, y, z)) (boxes r) = Some idx"
    and bx: "boxes r1 = ?bs"
    and ic: "instanceCount r1 = ?n - 1"
    and im: "instancedMesh r1 =
        (if ?k \<noteq> ?n - 1 then setColorAt ?m1 ?k (getColorAt ?m1 (?n - 1))
         else instancedMesh r)\<lparr>count_mesh := ?n - 1\<rparr>"
    and eg: "edgeGroup r1 = (if idx < length (edgeGroup r) then splice1 idx (edgeGroup r)
                      else edgeGroup r)"
    by blast
  have rb: "removeBox r ?g x y z = Inr (True, updateAllColors r1 ?g)"
    by (simp add: removeBox_def rc)
  have r1: "render_inv r1" using render_inv_removeBox_compact [OF ri rc] .
  have dc: "distinct (map cell_of (boxes r))" using ri by (simp add: render_inv_def)
  have cells: "map cell_of (boxes r1) = remove1 (x, y, z) (map cell_of (boxes r))"
    unfolding bx by (rule compact_cells [OF dc])
  have g1: "grid_inv ?g (map cell_of (boxes r1))"
    unfolding cells using grid_inv_remove_ok(2) [OF gi h] .
  have c1: "capacity (instancedMesh r1) = maxCells ?g" using im cap by simp
  have gw: "\<And>p. gridToWorld ?g p = gridToWorld g p" by (rule gridToWorld_cong) simp
  have rng: "\<And>d. d \<in> set (boxes r) \<Longrightarrow> 0 \<le> instanceIndex d \<and> instanceIndex d < ?n"
    using ri by (auto simp: render_inv_def)
  have ncap: "?n \<le> capacity (instancedMesh r)" using ri by (simp add: render_inv_def)
  have m1: "\<forall>b' \<in> set (boxes r1).
        getMatrixAt (instancedMesh r1) (instanceIndex b') = Some (gridToWorld ?g (box_pos b'))"
  proof
    fix b' assume "b' \<in> set (boxes r1)"
    then obtain b0 where b0: "b0 \<in> set (boxes r)" "cell_of b0 \<noteq> (x, y, z)"
      and eq: "b' = relabel (?n - 1) ?k b0"
      unfolding bx by (auto simp: filter_cell_relabel)
    have neq: "instanceIndex b0 \<noteq> ?k"
      using render_inv_index_inj [OF ri b0(1) mem] b0(2) cell by auto
    have kr: "0 \<le> ?k \<and> ?k < capacity (instancedMesh r)" using rng [OF mem] ncap by simp
    show "getMatrixAt (instancedMesh r1) (instanceIndex b') = Some (gridToWorld ?g (box_pos b'))"
    proof (cases "instanceIndex b0 = ?n - 1")
      case True
      then have i: "instanceIndex b' = ?k" using eq by (simp add: relabel_def)
      have kn: "?k \<noteq> ?n - 1" using neq True by simp
      have "getMatrixAt (instancedMesh r) (?n - 1) = Some (gridToWorld g (box_pos b0))"
        using mats [OF b0(1)] True by simp
      then show ?thesis
        using i kr kn eq by (simp add: im getMatrixAt_setMatrixAt gw)
    next
      case False
      then have i: "instanceIndex b' = instanceIndex b0" using eq by (simp add: relabel_def)
      show ?thesis
        using i neq mats [OF b0(1)] eq by (simp add: im getMatrixAt_setMatrixAt gw)
    qed
  qed
  have il: "idx < length (boxes r)" using findIndex_Some_D [OF idx] by simp
  have sp: "splice1 idx (boxes r) = filter (\<lambda>b'. cell_of b' \<noteq> (x, y, z)) (boxes r)"
    using splice1_filter [OF dc idx] .
  have e1: "edgeGroup r1 = map (\<lambda>b. gridToWorld ?g (box_pos b)) (boxes r1)"
    using il by (simp add: eg edges bx splice1_map sp filter_cell_relabel gw comp_def)
  have "sync_inv ?g r1"
    unfolding sync_inv_def by (intro conjI r1 g1 c1 m1 e1)
  then have "sync_inv ?g (updateAllColors r1 ?g)" by (rule sync_inv_updateAllColors)
  then show ?thesis using rb by blast
qed

section \<open>The controller keeps store and buffer in step\<close>


lemma sync_inv_same_buffer:
  assumes "sync_inv g r"
    and "boxes r' = boxes r" "instanceCount r' = instanceCount r"
    and "instancedMesh r' = instancedMesh r" "edgeGroup r' = edgeGroup r"
  shows "sync_inv g r'"
  using assms by (auto simp: sync_inv_def render_inv_def)

lemma sync_inv_updateGhostPreview:
  assumes "sync_inv g r"
  shows "sync_inv g (updateGhostPreview r p v)"
  by (rule sync_inv_same_buffer [OF assms]) (simp_all add: updateGhostPreview_def Let_def)

lemma sync_inv_setEraseMode:
  assumes "sync_inv g r"
  shows "sync_inv g (setEraseMode r a)"
  by (rule sync_inv_same_buffer [OF assms]) (simp_all add: setEraseMode_def)

lemma sync_inv_applyRotationDelta:
  assumes "sync_inv g r"
  shows "sync_inv g (applyRotationDelta r dy dx)"
  by (rule sync_inv_same_buffer [OF assms]) (simp_all add: applyRotationDelta_def)

lemma sync_inv_setPalette:
  assumes "sync_inv g r"
  shows "sync_inv g (setPalette r g2 p)"
  unfolding setPalette_def
  by (rule sync_inv_updateAllColors, rule sync_inv_same_buffer [OF assms]) simp_all

lemma sync_inv_clear:
  assumes "sync_inv g r"
  shows "sync_inv (clear g) (resetRotation (clearBoxes r))"
proof -
  have "0 \<le> capacity (instancedMesh r)" and "capacity (instancedMesh r) = maxCells g"
    using assms by (simp_all add: sync_inv_def render_inv_def)
  then show ?thesis
    using grid_inv_clear [of g]
    by (simp add: sync_inv_def render_inv_def clearBoxes_def resetRotation_def clear_def)
qed

lemma ctl_inv_initialize:
  assumes "initialize (new_Controller cfg) = Inr c0"
  shows "ctl_inv cfg c0 \<and> 0 \<le> maxBoxes cfg"
proof -
  have nn: "0 \<le> maxBoxes cfg"
    using assms
    by (auto simp: initialize_def new_Controller_def initialize_r_def new_InstancedMesh_def
        split: if_splits)
  then obtain r where r: "initialize_r cfg = Inr r" and c0: "c0 = (new_Controller cfg)\<lparr>renderer := Some r\<rparr>"
    using assms
    by (auto simp: initialize_def new_Controller_def initialize_r_def new_InstancedMesh_def)
  have rr: "boxes r = []" "instanceCount r = 0" "edgeGroup r = []"
    "capacity (instancedMesh r) = maxBoxes cfg" "count_mesh (instancedMesh r) = 0"
    using r nn by (auto simp: initialize_r_def new_InstancedMesh_def)
  have "sync_inv (new_VoxelGrid (cellSize_cfg cfg) (maxBoxes cfg)) r"
    using rr nn grid_inv_new [of "cellSize_cfg cfg" "maxBoxes cfg"]
    by (simp add: sync_inv_def render_inv_def new_VoxelGrid_def)
  then have "ctl_inv cfg c0"
    by (simp add: ctl_inv_def c0 new_Controller_def new_VoxelGrid_def)
  then show ?thesis using nn by simp
qed

lemma ctl_inv_renderer_update:
  assumes "ctl_inv cfg c" and "\<And>r. sync_inv (grid c) r \<Longrightarrow> sync_inv (grid c) (f r)"
    and "config c' = config c" "grid c' = grid c" "renderer c' = map_option f (renderer c)"
  shows "ctl_inv cfg c'"
  using assms by (auto simp: ctl_inv_def)

lemma ctl_inv_flags:
  assumes "ctl_inv cfg c"
    and "config c' = config c" "grid c' = grid c" "renderer c' = renderer c"
  shows "ctl_inv cfg c'"
  using assms by (auto simp: ctl_inv_def)

lemma ctl_inv_endDrawing: "ctl_inv cfg c \<Longrightarrow> ctl_inv cfg (endDrawing c)"
  unfolding endDrawing_def
  by (cases "isDrawing c")
    (auto intro: ctl_inv_renderer_update [where f = "\<lambda>r. updateGhostPreview r (0, 0, 0) False"]
      sync_inv_updateGhostPreview)

lemma ctl_inv_handleLeftFist: "ctl_inv cfg c \<Longrightarrow> ctl_inv cfg (handleLeftFist c st)"
  unfolding handleLeftFist_def
  by (auto intro: ctl_inv_renderer_update [where f = "\<lambda>r. setEraseMode r True"]
      ctl_inv_renderer_update [where f = "\<lambda>r. setEraseMode r False"] sync_inv_setEraseMode)

lemma ctl_inv_handleLeftPinch: "ctl_inv cfg c \<Longrightarrow> ctl_inv cfg (handleLeftPinch c st ev)"
  unfolding handleLeftPinch_def Let_def
  by (auto intro: ctl_inv_flags sync_inv_applyRotationDelta
      ctl_inv_renderer_update
        [where f = "\<lambda>r. applyRotationDelta r
                      (- (fst (normalizedPosition ev) - fst (rotationPrevPos c)) * ROTATION_SENSITIVITY)
                      ((snd (normalizedPosition ev) - snd (rotationPrevPos c)) * ROTATION_SENSITIVITY)"])

lemma ctl_inv_cyclePalette: "ctl_inv cfg c \<Longrightarrow> ctl_inv cfg (cyclePalette c)"
  unfolding cyclePalette_def Let_def
  by (rule ctl_inv_renderer_update
        [where f = "\<lambda>r. setPalette r (grid c)
                      (VOXEL_PALETTES ! ((paletteIndex c + 1) mod length VOXEL_PALETTES))"])
    (simp_all add: sync_inv_setPalette)

lemma ctl_inv_fps_update:
  assumes "ctl_inv cfg c"
  shows "ctl_inv cfg (fps_update c n)"
  by (rule ctl_inv_flags [OF assms]) (simp_all add: fps_update_def updatePerformanceWarning_def Let_def)

lemma ctl_inv_reset: "ctl_inv cfg c \<Longrightarrow> ctl_inv cfg (reset c)"
  by (auto simp: ctl_inv_def reset_def Let_def clear_def
      intro!: sync_inv_setEraseMode sync_inv_clear [unfolded clear_def])

lemma ctl_inv_trySpawnBox: "ctl_inv cfg c \<Longrightarrow> ctl_inv cfg (trySpawnBox c x y z p)"
proof -
  assume inv: "ctl_inv cfg c"
  then obtain r where r: "renderer c = Some r" "sync_inv (grid c) r"
    by (auto simp: ctl_inv_def)
  show ?thesis
  proof (cases "\<not> performanceWarning c \<and> count (grid c) < maxCells (grid c) \<and> \<not> has (grid c) x y z")
    case True
    then have f: "fst (add (grid c) x y z)"
      using grid_inv_add_ok(1) r(2) by (auto simp: sync_inv_def)
    then obtain g' where eq: "add (grid c) x y z = (True, g')"
      by (cases "add (grid c) x y z") auto
    have s': "sync_inv g' (addBox r g' x y z)"
      using sync_addBox [OF r(2), of x y z] True eq by simp
    have k: "maxCells g' = maxCells (grid c)" "cellSize g' = cellSize (grid c)"
      using add_maxCells [of "grid c" x y z] add_cellSize [of "grid c" x y z] eq by simp_all
    show ?thesis
      using inv r True s' k by (simp add: trySpawnBox_def ctl_inv_def eq)
  next
    case False
    then have "performanceWarning c \<or> add (grid c) x y z = (False, grid c)"
      using add_fail [of "grid c" x y z] by auto
    then show ?thesis using inv by (auto simp: trySpawnBox_def)
  qed
qed

lemma ctl_inv_tryEraseBox:
  "ctl_inv cfg c \<Longrightarrow> \<exists>c'. tryEraseBox c x y z = Inr c' \<and> ctl_inv cfg c'"
proof -
  assume inv: "ctl_inv cfg c"
  then obtain r where r: "renderer c = Some r" "sync_inv (grid c) r"
    by (auto simp: ctl_inv_def)
  show ?thesis
  proof (cases "has (grid c) x y z")
    case True
    then have f: "fst (remove (grid c) x y z)"
      using grid_inv_remove_ok(1) r(2) by (auto simp: sync_inv_def)
    then obtain g' where eq: "remove (grid c) x y z = (True, g')"
      by (cases "remove (grid c) x y z") auto
    obtain r' where r': "removeBox r g' x y z = Inr (True, r')" "sync_inv g' r'"
      using sync_removeBox [OF r(2) True] eq by auto
    have k: "maxCells g' = maxCells (grid c)" "cellSize g' = cellSize (grid c)"
      using remove_maxCells [of "grid c" x y z] remove_cellSize [of "grid c" x y z] eq
      by simp_all
    show ?thesis
      using inv r r' k by (simp add: tryEraseBox_def ctl_inv_def eq)
  next
    case False
    then show ?thesis using inv by (simp add: tryEraseBox_def remove_fail)
  qed
qed

lemma computeDepthCorrectedPosition_frame [simp]:
  "config (snd (computeDepthCorrectedPosition c ev lms st)) = config c"
  "grid (snd (computeDepthCorrectedPosition c ev lms st)) = grid c"
  "renderer (snd (computeDepthCorrectedPosition c ev lms st)) = renderer c"
  "isDrawing (snd (computeDepthCorrectedPosition c ev lms st)) = isDrawing c"
  "isRotating (snd (computeDepthCorrectedPosition c ev lms st)) = isRotating c"
  "eraseMode (snd (computeDepthCorrectedPosition c ev lms st)) = eraseMode c"
  "lastSpawnWorldPos (snd (computeDepthCorrectedPosition c ev lms st)) = lastSpawnWorldPos c"
  "performanceWarning (snd (computeDepthCorrectedPosition c ev lms st)) = performanceWarning c"
  by (simp_all add: computeDepthCorrectedPosition_def Let_def split: option.splits)

lemma ctl_inv_place_or_erase:
  "ctl_inv cfg c \<Longrightarrow> \<exists>c'. place_or_erase c gp p = Inr c' \<and> ctl_inv cfg c'"
  using ctl_inv_tryEraseBox ctl_inv_trySpawnBox by (simp add: place_or_erase_def)

lemma ctl_inv_ghost:
  assumes "ctl_inv cfg c"
  shows "ctl_inv cfg (c\<lparr>renderer := map_option (\<lambda>r. updateGhostPreview r p True) (renderer c)\<rparr>)"
    and "ctl_inv cfg (c\<lparr>isDrawing := True,
            renderer := map_option (\<lambda>r. updateGhostPreview r p True) (renderer c)\<rparr>)"
  by (rule ctl_inv_renderer_update [OF assms, where f = "\<lambda>r. updateGhostPreview r p True"];
      simp add: sync_inv_updateGhostPreview)+

lemma ctl_inv_handleRightPinch:
  assumes inv: "ctl_inv cfg c"
  shows "case handleRightPinch u c st p of
           Inr c' \<Rightarrow> ctl_inv cfg c'
         | Inl e \<Rightarrow> e = NotANumber \<and> cellSize_cfg cfg = 0"
proof (cases "st = ENDED")
  case True
  then show ?thesis using ctl_inv_endDrawing [OF inv] by (simp add: handleRightPinch_def)
next
  case ne: False
  let ?lp = "case renderer c of None \<Rightarrow> p | Some r \<Rightarrow> u (rotation r) p"
  have cs: "cellSize (grid c) = cellSize_cfg cfg" using inv by (simp add: ctl_inv_def)
  show ?thesis
  proof (cases "worldToGrid (grid c) ?lp")
    case None
    then have "cellSize (grid c) = 0"
      by (auto simp: worldToGrid_def split: prod.splits if_splits)
    then show ?thesis
      using None ne cs by (cases st) (simp_all add: handleRightPinch_def)
  next
    case (Some gp)
    let ?sp = "gridToWorld (grid c) gp"
    show ?thesis
    proof (cases "st = STARTED")
      case True
      obtain c' where "place_or_erase
          (c\<lparr>isDrawing := True,
             renderer := map_option (\<lambda>r. updateGhostPreview r ?sp True) (renderer c)\<rparr>) gp ?sp = Inr c'"
        "ctl_inv cfg c'"
        using ctl_inv_place_or_erase [OF ctl_inv_ghost(2) [OF inv]] by blast
      then show ?thesis using True Some by (simp add: handleRightPinch_def)
    next
      case False
      then have act: "st = ACTIVE" using ne by (cases st) auto
      let ?c1 = "c\<lparr>renderer := map_option (\<lambda>r. updateGhostPreview r ?sp True) (renderer c)\<rparr>"
      have i1: "ctl_inv cfg ?c1" using ctl_inv_ghost(1) [OF inv] .
      obtain c' where c': "place_or_erase ?c1 gp ?sp = Inr c'" "ctl_inv cfg c'"
        using ctl_inv_place_or_erase [OF i1] by blast
      show ?thesis
        using act Some c' i1 by (simp add: handleRightPinch_def Let_def)
    qed
  qed
qed

lemma ctl_inv_process_event:
  assumes inv: "ctl_inv cfg (ctl s)"
  shows "case process_event u res dt s ev of
           Inr s' \<Rightarrow> ctl_inv cfg (ctl s')
         | Inl e \<Rightarrow> e = NotANumber \<and> cellSize_cfg cfg = 0"
proof (cases "ev_type ev")
  case PINCH
  show ?thesis
  proof (cases "handedness ev = Right")
    case True
    let ?lms = "case findIndex (\<lambda>h. h = Right) (handednessStr res) of None \<Rightarrow> None
                | Some i \<Rightarrow> nth_opt (landmarks res) i"
    let ?d = "computeDepthCorrectedPosition (ctl s) ev ?lms (ev_state ev)"
    define c2 where "c2 = (if ev_state ev = STARTED then (snd ?d)\<lparr>smoothedPinchPos := fst ?d\<rparr>
               else (snd ?d)\<lparr>smoothedPinchPos :=
                      lerp3 (smoothedPinchPos (snd ?d)) (fst ?d)
                        (1 - exp (- POSITION_SMOOTHING_SPEED * dt))\<rparr>)"
    have "ctl_inv cfg (snd ?d)" by (rule ctl_inv_flags [OF inv]) simp_all
    then have i2: "ctl_inv cfg c2" unfolding c2_def by (auto intro: ctl_inv_flags)
    have pe: "process_event u res dt s ev =
        (case handleRightPinch u c2 (ev_state ev) (smoothedPinchPos c2) of
           Inl e \<Rightarrow> Inl e | Inr c3 \<Rightarrow> Inr (s\<lparr>ctl := c3, rightPinchHandled := True\<rparr>))"
      unfolding c2_def using PINCH True
      by (simp add: process_event_def Let_def split: prod.splits)
    show ?thesis
      unfolding pe using ctl_inv_handleRightPinch [OF i2, of u "ev_state ev" "smoothedPinchPos c2"]
      by (simp split: sum.splits)
  next
    case False
    then show ?thesis
      using PINCH inv ctl_inv_handleLeftPinch by (simp add: process_event_def)
  qed
next
  case FIST
  then show ?thesis using inv ctl_inv_handleLeftFist by (simp add: process_event_def)
next
  case PINKY_PINCH
  then show ?thesis using inv ctl_inv_cyclePalette by (simp add: process_event_def)
qed

lemma ctl_inv_process_events:
  "ctl_inv cfg (ctl s) \<Longrightarrow>
   (case process_events u res dt s evs of
      Inr s' \<Rightarrow> ctl_inv cfg (ctl s')
    | Inl e \<Rightarrow> e = NotANumber \<and> cellSize_cfg cfg = 0)"
proof (induction evs arbitrary: s)
  case Nil
  then show ?case by simp
next
  case (Cons ev evs)
  show ?case
  proof (cases "process_event u res dt s ev")
    case (Inl e)
    then show ?thesis using ctl_inv_process_event [OF Cons.prems, of u res dt ev] by simp
  next
    case (Inr s')
    then have "ctl_inv cfg (ctl s')"
      using ctl_inv_process_event [OF Cons.prems, of u res dt ev] by simp
    from Cons.IH [OF this] show ?thesis using Inr by simp
  qed
qed

lemma ctl_inv_processHands:
  assumes inv: "ctl_inv cfg c"
  shows "case processHands u c result events dt of
           Inr c' \<Rightarrow> ctl_inv cfg c'
         | Inl e \<Rightarrow> e = NotANumber \<and> cellSize_cfg cfg = 0"
proof (cases "case result of None \<Rightarrow> None
              | Some res \<Rightarrow> if length (landmarks res) = 0 then None else Some res")
  case None
  have "ctl_inv cfg (c\<lparr>lastHandCount := 0\<rparr>)" by (rule ctl_inv_flags [OF inv]) simp_all
  then show ?thesis using None ctl_inv_endDrawing by (simp add: processHands_def)
next
  case (Some res)
  let ?s0 = "\<lparr>ctl = c\<lparr>lastHandCount := length (landmarks res)\<rparr>, rightPinchHandled = False,
              leftPinchHandled = False, fistHandled = False\<rparr>"
  have i0: "ctl_inv cfg (ctl ?s0)" using ctl_inv_flags [OF inv] by simp
  show ?thesis
  proof (cases "process_events u res dt ?s0 events")
    case (Inl e)
    then show ?thesis
      using ctl_inv_process_events [OF i0, of u res dt events] Some
      by (simp add: processHands_def Let_def)
  next
    case (Inr s)
    then have cs: "ctl_inv cfg (ctl s)"
      using ctl_inv_process_events [OF i0, of u res dt events] by simp
    let ?c1 = "if \<not> rightPinchHandled s \<and> isDrawing (ctl s) then endDrawing (ctl s) else ctl s"
    let ?c2 = "if \<not> leftPinchHandled s \<and> isRotating ?c1 then ?c1\<lparr>isRotating := False\<rparr> else ?c1"
    have i1: "ctl_inv cfg ?c1" using cs ctl_inv_endDrawing by simp
    have i2: "ctl_inv cfg ?c2" using i1 by (auto intro: ctl_inv_flags)
    have i3: "ctl_inv cfg (?c2\<lparr>eraseMode := False,
                 renderer := map_option (\<lambda>r. setEraseMode r False) (renderer ?c2)\<rparr>)"
      by (rule ctl_inv_renderer_update [OF i2, where f = "\<lambda>r. setEraseMode r False"])
        (simp_all add: sync_inv_setEraseMode)
    show ?thesis
      using Some Inr i2 i3 by (simp add: processHands_def Let_def)
  qed
qed

lemma ctl_inv_step:
  assumes "ctl_inv cfg c"
  shows "case ctl_step u c op of
           Inr c' \<Rightarrow> ctl_inv cfg c'
         | Inl e \<Rightarrow> e = NotANumber \<and> cellSize_cfg cfg = 0"
proof (cases op)
  case (TrySpawnBox x y z p)
  then show ?thesis using ctl_inv_trySpawnBox [OF assms] by simp
next
  case (TryEraseBox x y z)
  then show ?thesis using ctl_inv_tryEraseBox [OF assms, of x y z] by auto
next
  case (Frame result events dt)
  then show ?thesis using ctl_inv_processHands [OF assms, of u result events dt] by simp
next
  case (FpsUpdate n)
  then show ?thesis using ctl_inv_fps_update [OF assms] by simp
next
  case Reset
  then show ?thesis using ctl_inv_reset [OF assms] by simp
qed

lemma ctl_inv_run:
  "ctl_inv cfg c \<Longrightarrow>
   (case ctl_run u c ops of
      Inr c' \<Rightarrow> ctl_inv cfg c'
    | Inl e \<Rightarrow> e = NotANumber \<and> cellSize_cfg cfg = 0)"
proof (induction ops arbitrary: c)
  case Nil
  then show ?case by simp
next
  case (Cons op ops)
  show ?case
  proof (cases "ctl_step u c op")
    case (Inl e)
    then show ?thesis using ctl_inv_step [OF Cons.prems, of u op] by simp
  next
    case (Inr c')
    then have "ctl_inv cfg c'" using ctl_inv_step [OF Cons.prems, of u op] by simp
    from Cons.IH [OF this] show ?thesis using Inr by simp
  qed
qed

lemma length_filter_key:
  "distinct (map f xs) \<Longrightarrow>
   length (filter (\<lambda>b. f b = v) xs) = (if v \<in> f ` set xs then 1 else 0)"
  by (induction xs) (auto simp: image_iff)

lemma sync_inv_bijection:
  assumes s: "sync_inv g r"
  shows "length (filter (\<lambda>b. gx b = x \<and> gy b = y \<and> gz b = z) (boxes r))
           = (if has g x y z then 1 else 0)"
proof -
  have dc: "distinct (map cell_of (boxes r))" and gi: "grid_inv g (map cell_of (boxes r))"
    using s by (simp_all add: sync_inv_def render_inv_def)
  have "has g x y z \<longleftrightarrow> (x, y, z) \<in> cell_of ` set (boxes r)"
    using grid_inv_has [OF gi] by simp
  then show ?thesis
    using length_filter_key [OF dc, of "(x, y, z)"] by (simp add: cell_pred_eq)
qed

lemma render_inv_no_hole:
  assumes ri: "render_inv r" and i: "0 \<le> i" "i < instanceCount r"
  shows "length (filter (\<lambda>b. instanceIndex b = i) (boxes r)) = 1"
proof -
  have di: "distinct (map instanceIndex (boxes r))" using ri by (simp add: render_inv_def)
  have "i \<in> instanceIndex ` set (boxes r)" using render_inv_dense [OF ri] i by simp
  then show ?thesis using length_filter_key [OF di, of i] by simp
qed



section \<open>Swap-and-pop\<close>


lemma getColorAt_setColorAt:
  "getColorAt (setColorAt m i c) j =
     (if 0 \<le> i \<and> i < capacity m \<and> j = i then c else getColorAt m j)"
  by (cases "0 \<le> i"; cases "i < capacity m"; cases "j = i"; cases "instanceColor m")
    (simp_all add: getColorAt_def setColorAt_def Let_def)

lemma getColorAt_setMatrixAt [simp]: "getColorAt (setMatrixAt m i v) j = getColorAt m j"
  by (simp add: getColorAt_def split: option.splits)

lemma getColorAt_count_mesh [simp]: "getColorAt (m\<lparr>count_mesh := k\<rparr>) j = getColorAt m j"
  by (simp add: getColorAt_def split: option.splits)

lemma removeBox_present:
  assumes inv: "render_inv r" and mem: "b \<in> set (boxes r)" and cell: "cell_of b = (x, y, z)"
  shows "\<exists>r1. removeBox_compact r x y z = Inr (True, r1) \<and>
        removeBox r g x y z = Inr (True, updateAllColors r1 g) \<and>
        render_inv (updateAllColors r1 g) \<and>
        instanceCount (updateAllColors r1 g) = instanceCount r - 1 \<and>
        count_mesh (instancedMesh (updateAllColors r1 g)) = instanceCount r - 1 \<and>
        boxes (updateAllColors r1 g) =
          filter (\<lambda>d. cell_of d \<noteq> (x, y, z))
            (map (relabel (instanceCount r - 1) (instanceIndex b)) (boxes r)) \<and>
        (\<forall>j. getMatrixAt (instancedMesh (updateAllColors r1 g)) j =
               (if instanceIndex b \<noteq> instanceCount r - 1 \<and> j = instanceIndex b
                then getMatrixAt (instancedMesh r) (instanceCount r - 1)
                else getMatrixAt (instancedMesh r) j)) \<and>
        (instanceIndex b \<noteq> instanceCount r - 1 \<longrightarrow>
           getColorAt (instancedMesh r1) (instanceIndex b)
             = getColorAt (instancedMesh r) (instanceCount r - 1))"
proof -
  let ?n = "instanceCount r"
  let ?k = "instanceIndex b"
  let ?m1 = "setMatrixAt (instancedMesh r) ?k (getMatrixAt (instancedMesh r) (?n - 1))"
  from removeBox_compact_present [OF inv mem cell]
  obtain r1 where rc: "removeBox_compact r x y z = Inr (True, r1)"
    and bx: "boxes r1 = filter (\<lambda>d. cell_of d \<noteq> (x, y, z)) (map (relabel (?n - 1) ?k) (boxes r))"
    and ic: "instanceCount r1 = ?n - 1"
    and im: "instancedMesh r1 =
        (if ?k \<noteq> ?n - 1 then setColorAt ?m1 ?k (getColorAt ?m1 (?n - 1))
         else instancedMesh r)\<lparr>count_mesh := ?n - 1\<rparr>"
    by blast
  have rb: "removeBox r g x y z = Inr (True, updateAllColors r1 g)"
    by (simp add: removeBox_def rc)
  have r1: "render_inv r1" using render_inv_removeBox_compact [OF inv rc] .
  have kr: "0 \<le> ?k" "?k < capacity (instancedMesh r)"
    using inv mem unfolding render_inv_def by fastforce+
  have mat: "getMatrixAt (instancedMesh r1) j =
               (if ?k \<noteq> ?n - 1 \<and> j = ?k
                then getMatrixAt (instancedMesh r) (?n - 1)
                else getMatrixAt (instancedMesh r) j)" for j
    using kr by (simp add: im getMatrixAt_setMatrixAt)
  have col: "getColorAt (instancedMesh r1) ?k = getColorAt (instancedMesh r) (?n - 1)"
    if "?k \<noteq> ?n - 1"
    using that kr by (simp add: im getColorAt_setColorAt)
  show ?thesis
    by (rule exI [of _ r1])
      (use rc rb render_inv_updateAllColors [OF r1] bx ic im mat col in simp)
qed

lemma initialize_r_default:
  "initialize_r DEFAULT_VOXEL_BUILDER_CONFIG =
     Inr \<lparr>instancedMesh = \<lparr>capacity = 1000, count_mesh = 0, instanceMatrix = (\<lambda>_. None),
                             instanceColor = None\<rparr>,
          instanceCount = 0, edgeGroup = [], ghostVisible = False, ghostPosition = (0, 0, 0),
          rotation = (0, 0), targetRotY = 0, targetRotX = 0, boxes = [],
          palette = VOXEL_PALETTES ! 0, eraseMode_r = False\<rparr>"
  by (simp add: initialize_r_def new_InstancedMesh_def DEFAULT_VOXEL_BUILDER_CONFIG_def)

lemma scenario_D_state:
  assumes "initialize_r DEFAULT_VOXEL_BUILDER_CONFIG = Inr r0"
  shows "boxes (snd (scenario_D r0)) =
           [\<lparr>gx = 0, gy = 0, gz = 0, instanceIndex = 0\<rparr>,
            \<lparr>gx = 1, gy = 0, gz = 0, instanceIndex = 1\<rparr>,
            \<lparr>gx = 2, gy = 0, gz = 0, instanceIndex = 2\<rparr>]"
    and "instanceCount (snd (scenario_D r0)) = 3"
    and "count_mesh (instancedMesh (snd (scenario_D r0))) = 3"
    and "capacity (instancedMesh (snd (scenario_D r0))) = 1000"
    and "instanceColor (instancedMesh (snd (scenario_D r0))) \<noteq> None"
    and "getMatrixAt (instancedMesh (snd (scenario_D r0))) 0 = Some (0, 0, 0)"
    and "getMatrixAt (instancedMesh (snd (scenario_D r0))) 1 = Some (0.45, 0, 0)"
    and "getMatrixAt (instancedMesh (snd (scenario_D r0))) 2 = Some (0.9, 0, 0)"
proof -
  have r0: "boxes r0 = []" "instanceCount r0 = 0" "capacity (instancedMesh r0) = 1000"
    using assms by (auto simp: initialize_r_default)
  show "boxes (snd (scenario_D r0)) =
           [\<lparr>gx = 0, gy = 0, gz = 0, instanceIndex = 0\<rparr>,
            \<lparr>gx = 1, gy = 0, gz = 0, instanceIndex = 1\<rparr>,
            \<lparr>gx = 2, gy = 0, gz = 0, instanceIndex = 2\<rparr>]"
    and "instanceCount (snd (scenario_D r0)) = 3"
    and "count_mesh (instancedMesh (snd (scenario_D r0))) = 3"
    and "capacity (instancedMesh (snd (scenario_D r0))) = 1000"
    and "instanceColor (instancedMesh (snd (scenario_D r0))) \<noteq> None"
    by (simp_all add: scenario_D_def Let_def r0)
  show "getMatrixAt (instancedMesh (snd (scenario_D r0))) 0 = Some (0, 0, 0)"
    and "getMatrixAt (instancedMesh (snd (scenario_D r0))) 1 = Some (0.45, 0, 0)"
    and "getMatrixAt (instancedMesh (snd (scenario_D r0))) 2 = Some (0.9, 0, 0)"
    by (simp_all add: scenario_D_def Let_def r0 addBox_getMatrixAt gridToWorld_def
        new_VoxelGrid_def)
qed

lemma scenario_D_inv:
  assumes "initialize_r DEFAULT_VOXEL_BUILDER_CONFIG = Inr r0"
  shows "render_inv (snd (scenario_D r0))"
  unfolding render_inv_def
  using scenario_D_state(1-5) [OF assms] by (simp add: cell_of_def)

text \<open>
  Claim C2. On a well-formed render buffer, \<open>removeBox\<close> returns false and changes nothing
  when no record has the cell. When a record \<open>b\<close> has it, \<open>removeBox\<close> returns true,
  \<open>instanceCount\<close> drops by one, and the records left are the old ones without \<open>b\<close>, the
  record that held the last index now holding \<open>b\<close>'s index; if \<open>b\<close> was not the last live
  record, its slot receives the transform of the last slot and, before the recolour pass
  runs, the colour of the last slot; every index of the new range \<open>[0, instanceCount)\<close>
  belongs to exactly one record. Scenario D: after adding A, B, C at indices 0, 1, 2 and
  removing B, C's record is at index 1 with C's transform, \<open>instanceCount = 2\<close>, and A's
  record and transform are as before at index 0.
\<close>
theorem removeBox_swap_and_pop:
  assumes inv: "render_inv r"
  shows "((\<forall>b \<in> set (boxes r). cell_of b \<noteq> (x, y, z)) \<longrightarrow> removeBox r g x y z = Inr (False, r))
     \<and> (\<forall>b \<in> set (boxes r). cell_of b = (x, y, z) \<longrightarrow>
          (\<exists>r1 r'. removeBox_compact r x y z = Inr (True, r1) \<and>
             r' = updateAllColors r1 g \<and>
             removeBox r g x y z = Inr (True, r') \<and>
             instanceCount r' = instanceCount r - 1 \<and>
             count_mesh (instancedMesh r') = instanceCount r - 1 \<and>
             boxes r' = filter (\<lambda>d. cell_of d \<noteq> (x, y, z))
                          (map (relabel (instanceCount r - 1) (instanceIndex b)) (boxes r)) \<and>
             (instanceIndex b \<noteq> instanceCount r - 1 \<longrightarrow>
                getMatrixAt (instancedMesh r') (instanceIndex b)
                  = getMatrixAt (instancedMesh r) (instanceCount r - 1) \<and>
                getColorAt (instancedMesh r1) (instanceIndex b)
                  = getColorAt (instancedMesh r) (instanceCount r - 1) \<and>
                (\<exists>l \<in> set (boxes r). instanceIndex l = instanceCount r - 1 \<and>
                     l\<lparr>instanceIndex := instanceIndex b\<rparr> \<in> set (boxes r'))) \<and>
             (\<forall>d \<in> set (boxes r). d \<noteq> b \<and> instanceIndex d \<noteq> instanceCount r - 1 \<longrightarrow>
                d \<in> set (boxes r') \<and>
                getMatrixAt (instancedMesh r') (instanceIndex d)
                  = getMatrixAt (instancedMesh r) (instanceIndex d)) \<and>
             (\<forall>d \<in> set (boxes r'). 0 \<le> instanceIndex d \<and> instanceIndex d < instanceCount r') \<and>
             (\<forall>i. 0 \<le> i \<and> i < instanceCount r' \<longrightarrow>
                  length (filter (\<lambda>d. instanceIndex d = i) (boxes r')) = 1)))
     \<and> (\<exists>r0 r4. initialize_r DEFAULT_VOXEL_BUILDER_CONFIG = Inr r0 \<and>
          boxes (snd (scenario_D r0)) =
            [\<lparr>gx = 0, gy = 0, gz = 0, instanceIndex = 0\<rparr>,
             \<lparr>gx = 1, gy = 0, gz = 0, instanceIndex = 1\<rparr>,
             \<lparr>gx = 2, gy = 0, gz = 0, instanceIndex = 2\<rparr>] \<and>
          removeBox (snd (scenario_D r0)) (snd (remove (fst (scenario_D r0)) 1 0 0)) 1 0 0
            = Inr (True, r4) \<and>
          boxes r4 = [\<lparr>gx = 0, gy = 0, gz = 0, instanceIndex = 0\<rparr>,
                      \<lparr>gx = 2, gy = 0, gz = 0, instanceIndex = 1\<rparr>] \<and>
          instanceCount r4 = 2 \<and>
          getMatrixAt (instancedMesh r4) 1 = getMatrixAt (instancedMesh (snd (scenario_D r0))) 2 \<and>
          getMatrixAt (instancedMesh r4) 1
            = Some (gridToWorld (fst (scenario_D r0)) \<lparr>gx = 2, gy = 0, gz = 0\<rparr>) \<and>
          getMatrixAt (instancedMesh r4) 0 = getMatrixAt (instancedMesh (snd (scenario_D r0))) 0 \<and>
          getMatrixAt (instancedMesh r4) 0
            = Some (gridToWorld (fst (scenario_D r0)) \<lparr>gx = 0, gy = 0, gz = 0\<rparr>))"
proof (intro conjI)
  show "(\<forall>b \<in> set (boxes r). cell_of b \<noteq> (x, y, z)) \<longrightarrow> removeBox r g x y z = Inr (False, r)"
    by (simp add: removeBox_def removeBox_compact_absent)
next
  let ?n = "instanceCount r"
  show "\<forall>b \<in> set (boxes r). cell_of b = (x, y, z) \<longrightarrow>
          (\<exists>r1 r'. removeBox_compact r x y z = Inr (True, r1) \<and>
             r' = updateAllColors r1 g \<and>
             removeBox r g x y z = Inr (True, r') \<and>
             instanceCount r' = ?n - 1 \<and>
             count_mesh (instancedMesh r') = ?n - 1 \<and>
             boxes r' = filter (\<lambda>d. cell_of d \<noteq> (x, y, z))
                          (map (relabel (?n - 1) (instanceIndex b)) (boxes r)) \<and>
             (instanceIndex b \<noteq> ?n - 1 \<longrightarrow>
                getMatrixAt (instancedMesh r') (instanceIndex b)
                  = getMatrixAt (instancedMesh r) (?n - 1) \<and>
                getColorAt (instancedMesh r1) (instanceIndex b)
                  = getColorAt (instancedMesh r) (?n - 1) \<and>
                (\<exists>l \<in> set (boxes r). instanceIndex l = ?n - 1 \<and>
                     l\<lparr>instanceIndex := instanceIndex b\<rparr> \<in> set (boxes r'))) \<and>
             (\<forall>d \<in> set (boxes r). d \<noteq> b \<and> instanceIndex d \<noteq> ?n - 1 \<longrightarrow>
                d \<in> set (boxes r') \<and>
                getMatrixAt (instancedMesh r') (instanceIndex d)
                  = getMatrixAt (instancedMesh r) (instanceIndex d)) \<and>
             (\<forall>d \<in> set (boxes r'). 0 \<le> instanceIndex d \<and> instanceIndex d < instanceCount r') \<and>
             (\<forall>i. 0 \<le> i \<and> i < instanceCount r' \<longrightarrow>
                  length (filter (\<lambda>d. instanceIndex d = i) (boxes r')) = 1))"
  proof (intro ballI impI)
    fix b assume mem: "b \<in> set (boxes r)" and cell: "cell_of b = (x, y, z)"
    let ?k = "instanceIndex b"
    from removeBox_present [OF inv mem cell, of g]
    obtain r1 where rc: "removeBox_compact r x y z = Inr (True, r1)"
      and rb: "removeBox r g x y z = Inr (True, updateAllColors r1 g)"
      and ri: "render_inv (updateAllColors r1 g)"
      and ic: "instanceCount (updateAllColors r1 g) = ?n - 1"
      and cm: "count_mesh (instancedMesh (updateAllColors r1 g)) = ?n - 1"
      and bx: "boxes (updateAllColors r1 g) =
                 filter (\<lambda>d. cell_of d \<noteq> (x, y, z)) (map (relabel (?n - 1) ?k) (boxes r))"
      and mat: "\<And>j. getMatrixAt (instancedMesh (updateAllColors r1 g)) j =
               (if ?k \<noteq> ?n - 1 \<and> j = ?k then getMatrixAt (instancedMesh r) (?n - 1)
                else getMatrixAt (instancedMesh r) j)"
      and col: "?k \<noteq> ?n - 1 \<longrightarrow>
           getColorAt (instancedMesh r1) ?k = getColorAt (instancedMesh r) (?n - 1)"
      by blast
    let ?r = "updateAllColors r1 g"
    have ne: "boxes r \<noteq> []" using mem by auto
    have moved: "\<exists>l \<in> set (boxes r). instanceIndex l = ?n - 1 \<and>
                     l\<lparr>instanceIndex := ?k\<rparr> \<in> set (boxes ?r)"
      if k: "?k \<noteq> ?n - 1"
    proof -
      obtain l where l: "l \<in> set (boxes r)" "instanceIndex l = ?n - 1"
        using render_inv_last [OF inv ne] by blast
      have "l \<noteq> b" using l(2) k by auto
      then have "cell_of l \<noteq> (x, y, z)"
        using render_inv_cell_inj [OF inv l(1) mem] cell by auto
      moreover have "relabel (?n - 1) ?k l = l\<lparr>instanceIndex := ?k\<rparr>"
        using l(2) by (simp add: relabel_def)
      ultimately have "l\<lparr>instanceIndex := ?k\<rparr> \<in> set (boxes ?r)"
        unfolding bx using l(1) by (force simp: filter_cell_relabel)
      then show ?thesis using l by blast
    qed
    have others: "d \<in> set (boxes ?r) \<and>
                getMatrixAt (instancedMesh ?r) (instanceIndex d)
                  = getMatrixAt (instancedMesh r) (instanceIndex d)"
      if d: "d \<in> set (boxes r)" "d \<noteq> b" "instanceIndex d \<noteq> ?n - 1" for d
    proof -
      have c: "cell_of d \<noteq> (x, y, z)"
        using render_inv_cell_inj [OF inv d(1) mem] cell d(2) by auto
      have i: "instanceIndex d \<noteq> ?k"
        using render_inv_index_inj [OF inv d(1) mem] d(2) by auto
      have "relabel (?n - 1) ?k d = d" using d(3) by (simp add: relabel_def)
      then have "d \<in> set (boxes ?r)"
        unfolding bx using d(1) c by (force simp: filter_cell_relabel)
      then show ?thesis using i mat [of "instanceIndex d"] by simp
    qed
    have rng: "\<forall>d \<in> set (boxes ?r). 0 \<le> instanceIndex d \<and> instanceIndex d < instanceCount ?r"
      using ri unfolding render_inv_def by blast
    have dense: "\<forall>i. 0 \<le> i \<and> i < instanceCount ?r \<longrightarrow>
                  length (filter (\<lambda>d. instanceIndex d = i) (boxes ?r)) = 1"
      using render_inv_no_hole [OF ri] by blast
    show "\<exists>r1 r'. removeBox_compact r x y z = Inr (True, r1) \<and>
             r' = updateAllColors r1 g \<and>
             removeBox r g x y z = Inr (True, r') \<and>
             instanceCount r' = ?n - 1 \<and>
             count_mesh (instancedMesh r') = ?n - 1 \<and>
             boxes r' = filter (\<lambda>d. cell_of d \<noteq> (x, y, z))
                          (map (relabel (?n - 1) (instanceIndex b)) (boxes r)) \<and>
             (instanceIndex b \<noteq> ?n - 1 \<longrightarrow>
                getMatrixAt (instancedMesh r') (instanceIndex b)
                  = getMatrixAt (instancedMesh r) (?n - 1) \<and>
                getColorAt (instancedMesh r1) (instanceIndex b)
                  = getColorAt (instancedMesh r) (?n - 1) \<and>
                (\<exists>l \<in> set (boxes r). instanceIndex l = ?n - 1 \<and>
                     l\<lparr>instanceIndex := instanceIndex b\<rparr> \<in> set (boxes r'))) \<and>
             (\<forall>d \<in> set (boxes r). d \<noteq> b \<and> instanceIndex d \<noteq> ?n - 1 \<longrightarrow>
                d \<in> set (boxes r') \<and>
                getMatrixAt (instancedMesh r') (instanceIndex d)
                  = getMatrixAt (instancedMesh r) (instanceIndex d)) \<and>
             (\<forall>d \<in> set (boxes r'). 0 \<le> instanceIndex d \<and> instanceIndex d < instanceCount r') \<and>
             (\<forall>i. 0 \<le> i \<and> i < instanceCount r' \<longrightarrow>
                  length (filter (\<lambda>d. instanceIndex d = i) (boxes r')) = 1)"
    proof (rule exI [of _ r1], rule exI [of _ ?r], intro conjI)
      show "?k \<noteq> ?n - 1 \<longrightarrow>
                getMatrixAt (instancedMesh ?r) ?k = getMatrixAt (instancedMesh r) (?n - 1) \<and>
                getColorAt (instancedMesh r1) ?k = getColorAt (instancedMesh r) (?n - 1) \<and>
                (\<exists>l \<in> set (boxes r). instanceIndex l = ?n - 1 \<and>
                     l\<lparr>instanceIndex := ?k\<rparr> \<in> set (boxes ?r))"
        using mat [of ?k] col moved by simp
      show "\<forall>d \<in> set (boxes r). d \<noteq> b \<and> instanceIndex d \<noteq> ?n - 1 \<longrightarrow>
                d \<in> set (boxes ?r) \<and>
                getMatrixAt (instancedMesh ?r) (instanceIndex d)
                  = getMatrixAt (instancedMesh r) (instanceIndex d)"
        using others by blast
    qed (fact rc refl rb ic cm bx rng dense)+
  qed
next
  obtain r0 where r0: "initialize_r DEFAULT_VOXEL_BUILDER_CONFIG = Inr r0"
    using initialize_r_default by blast
  let ?r3 = "snd (scenario_D r0)"
  let ?g3 = "fst (scenario_D r0)"
  let ?g4 = "snd (remove ?g3 1 0 0)"
  note st = scenario_D_state [OF r0]
  have mem: "\<lparr>gx = 1, gy = 0, gz = 0, instanceIndex = 1\<rparr> \<in> set (boxes ?r3)"
    by (simp add: st(1))
  from removeBox_present [OF scenario_D_inv [OF r0] mem, of 1 0 0 ?g4]
  obtain r1 where rb: "removeBox ?r3 ?g4 1 0 0 = Inr (True, updateAllColors r1 ?g4)"
    and ic: "instanceCount (updateAllColors r1 ?g4) = instanceCount ?r3 - 1"
    and bx: "boxes (updateAllColors r1 ?g4) =
               filter (\<lambda>d. cell_of d \<noteq> (1, 0, 0))
                 (map (relabel (instanceCount ?r3 - 1) 1) (boxes ?r3))"
    and mat: "\<And>j. getMatrixAt (instancedMesh (updateAllColors r1 ?g4)) j =
               (if (1::int) \<noteq> instanceCount ?r3 - 1 \<and> j = 1
                then getMatrixAt (instancedMesh ?r3) (instanceCount ?r3 - 1)
                else getMatrixAt (instancedMesh ?r3) j)"
    by (auto simp: cell_of_def)
  have cs: "cellSize ?g3 = 0.45"
    by (simp add: scenario_D_def Let_def new_VoxelGrid_def)
  show "\<exists>r0 r4. initialize_r DEFAULT_VOXEL_BUILDER_CONFIG = Inr r0 \<and>
          boxes (snd (scenario_D r0)) =
            [\<lparr>gx = 0, gy = 0, gz = 0, instanceIndex = 0\<rparr>,
             \<lparr>gx = 1, gy = 0, gz = 0, instanceIndex = 1\<rparr>,
             \<lparr>gx = 2, gy = 0, gz = 0, instanceIndex = 2\<rparr>] \<and>
          removeBox (snd (scenario_D r0)) (snd (remove (fst (scenario_D r0)) 1 0 0)) 1 0 0
            = Inr (True, r4) \<and>
          boxes r4 = [\<lparr>gx = 0, gy = 0, gz = 0, instanceIndex = 0\<rparr>,
                      \<lparr>gx = 2, gy = 0, gz = 0, instanceIndex = 1\<rparr>] \<and>
          instanceCount r4 = 2 \<and>
          getMatrixAt (instancedMesh r4) 1 = getMatrixAt (instancedMesh (snd (scenario_D r0))) 2 \<and>
          getMatrixAt (instancedMesh r4) 1
            = Some (gridToWorld (fst (scenario_D r0)) \<lparr>gx = 2, gy = 0, gz = 0\<rparr>) \<and>
          getMatrixAt (instancedMesh r4) 0 = getMatrixAt (instancedMesh (snd (scenario_D r0))) 0 \<and>
          getMatrixAt (instancedMesh r4) 0
            = Some (gridToWorld (fst (scenario_D r0)) \<lparr>gx = 0, gy = 0, gz = 0\<rparr>)"
  proof (rule exI [of _ r0], rule exI [of _ "updateAllColors r1 ?g4"], intro conjI)
    show "boxes (updateAllColors r1 ?g4) =
            [\<lparr>gx = 0, gy = 0, gz = 0, instanceIndex = 0\<rparr>,
             \<lparr>gx = 2, gy = 0, gz = 0, instanceIndex = 1\<rparr>]"
      unfolding bx by (simp add: st relabel_def cell_of_def)
    show "instanceCount (updateAllColors r1 ?g4) = 2" using ic st(2) by simp
    show "getMatrixAt (instancedMesh (updateAllColors r1 ?g4)) 1 = getMatrixAt (instancedMesh ?r3) 2"
      using mat [of 1] st(2) by simp
    show "getMatrixAt (instancedMesh (updateAllColors r1 ?g4)) 1
            = Some (gridToWorld ?g3 \<lparr>gx = 2, gy = 0, gz = 0\<rparr>)"
      using mat [of 1] st(2) st(8) by (simp add: gridToWorld_def cs)
    show "getMatrixAt (instancedMesh (updateAllColors r1 ?g4)) 0 = getMatrixAt (instancedMesh ?r3) 0"
      using mat [of 0] by simp
    show "getMatrixAt (instancedMesh (updateAllColors r1 ?g4)) 0
            = Some (gridToWorld ?g3 \<lparr>gx = 0, gy = 0, gz = 0\<rparr>)"
      using mat [of 0] st(6) by (simp add: gridToWorld_def)
  qed (fact r0 st(1) rb)+
qed

theorem removeBox_swap_and_pop_witness:
  "\<exists>r0. initialize_r DEFAULT_VOXEL_BUILDER_CONFIG = Inr r0 \<and>
     render_inv (snd (scenario_D r0)) \<and>
     \<lparr>gx = 1, gy = 0, gz = 0, instanceIndex = 1\<rparr> \<in> set (boxes (snd (scenario_D r0))) \<and>
     (\<exists>r'. removeBox (snd (scenario_D r0)) (fst (scenario_D r0)) 1 0 0 = Inr (True, r') \<and>
           instanceCount r' = 2) \<and>
     removeBox (snd (scenario_D r0)) (fst (scenario_D r0)) 7 7 7 = Inr (False, snd (scenario_D r0))"
proof -
  obtain r0 where r0: "initialize_r DEFAULT_VOXEL_BUILDER_CONFIG = Inr r0"
    using initialize_r_default by blast
  note st = scenario_D_state [OF r0]
  have inv: "render_inv (snd (scenario_D r0))"
    unfolding render_inv_def using st(1-5) by (simp add: cell_of_def)
  have mem: "\<lparr>gx = 1, gy = 0, gz = 0, instanceIndex = 1\<rparr> \<in> set (boxes (snd (scenario_D r0)))"
    by (simp add: st(1))
  have absent: "\<forall>b \<in> set (boxes (snd (scenario_D r0))). cell_of b \<noteq> (7, 7, 7)"
    by (simp add: st(1) cell_of_def)
  note t1 = removeBox_swap_and_pop [OF inv, of 1 0 0 "fst (scenario_D r0)"]
  note t2 = removeBox_swap_and_pop [OF inv, of 7 7 7 "fst (scenario_D r0)"]
  have a: "\<exists>r'. removeBox (snd (scenario_D r0)) (fst (scenario_D r0)) 1 0 0 = Inr (True, r') \<and>
           instanceCount r' = 2"
    using t1 mem st(2) by (fastforce simp: cell_of_def)
  have b: "removeBox (snd (scenario_D r0)) (fst (scenario_D r0)) 7 7 7
             = Inr (False, snd (scenario_D r0))"
    using t2 absent by blast
  show ?thesis using r0 inv mem a b by blast
qed

section \<open>The recolour pass\<close>


lemma fold_setColorAt_other:
  "j \<notin> ix ` set bs \<Longrightarrow>
   getColorAt (fold (\<lambda>box m. setColorAt m (ix box) (col box)) bs m) j = getColorAt m j"
  by (induction bs arbitrary: m) (simp_all add: getColorAt_setColorAt)

lemma fold_setColorAt_get:
  "distinct (map ix bs) \<Longrightarrow> \<forall>b \<in> set bs. 0 \<le> ix b \<and> ix b < capacity m \<Longrightarrow> b \<in> set bs
     \<Longrightarrow> getColorAt (fold (\<lambda>box m. setColorAt m (ix box) (col box)) bs m) (ix b) = col b"
proof (induction bs arbitrary: m)
  case Nil
  then show ?case by simp
next
  case (Cons a as)
  show ?case
  proof (cases "ix b \<in> ix ` set as")
    case True
    then obtain d where d: "d \<in> set as" "ix d = ix b" by auto
    have "b \<in> set as"
    proof (rule ccontr)
      assume "b \<notin> set as"
      then have "b = a" using Cons.prems(3) by simp
      then have "ix a \<in> ix ` set as" using d by (metis imageI)
      then show False using Cons.prems(1) by simp
    qed
    moreover have "\<forall>b \<in> set as. 0 \<le> ix b \<and> ix b < capacity (setColorAt m (ix a) (col a))"
      using Cons.prems(2) by simp
    ultimately show ?thesis using Cons.IH Cons.prems(1) by simp
  next
    case False
    then have ba: "b = a" using Cons.prems(3) by auto
    have "0 \<le> ix a \<and> ix a < capacity m" using Cons.prems(2) by simp
    then show ?thesis
      using False ba by (simp add: fold_setColorAt_other getColorAt_setColorAt)
  qed
qed

lemma gradient_color_finite:
  "gradient_color pal (Num lo) (js_sub (Num hi) (Num lo)) y =
     (let t = (if hi - lo = 0 then 1 / 2 else (of_int y - lo) / (hi - lo))
      in HSL (Num (fst (bottomHSL pal) + (fst (topHSL pal) - fst (bottomHSL pal)) * t))
             (Num (fst (snd (bottomHSL pal))
                   + (fst (snd (topHSL pal)) - fst (snd (bottomHSL pal))) * t))
             (Num (snd (snd (bottomHSL pal))
                   + (snd (snd (topHSL pal)) - snd (snd (bottomHSL pal))) * t)))"
  by (cases "bottomHSL pal"; cases "topHSL pal") (simp add: gradient_color_def Let_def)

lemma grid_inv_finite_range:
  assumes "grid_inv g cs"
  shows "\<exists>lo hi. getYRange g = (Num (of_int lo), Num (of_int hi)) \<and>
            (\<forall>c \<in> set cs. lo \<le> cell_y c \<and> cell_y c \<le> hi) \<and>
            (cs \<noteq> [] \<longrightarrow> lo \<in> cell_y ` set cs \<and> hi \<in> cell_y ` set cs)"
proof (cases "cs = []")
  case True
  then have "getYRange g = (Num (of_int 0), Num (of_int 0))"
    using assms by (simp add: getYRange_def grid_inv_def)
  then show ?thesis using True by (intro exI [of _ 0]) simp
next
  case False
  then have fin: "finite (cell_y ` set cs)" "cell_y ` set cs \<noteq> {}" by simp_all
  have "getYRange g = (Num (of_int (Min (cell_y ` set cs))), Num (of_int (Max (cell_y ` set cs))))"
    using assms False by (simp add: getYRange_def grid_inv_def extent_of_def)
  moreover have "\<forall>c \<in> set cs. Min (cell_y ` set cs) \<le> cell_y c \<and> cell_y c \<le> Max (cell_y ` set cs)"
    using fin by simp
  moreover have "Min (cell_y ` set cs) \<in> cell_y ` set cs" "Max (cell_y ` set cs) \<in> cell_y ` set cs"
    using Min_in [OF fin] Max_in [OF fin] by simp_all
  ultimately show ?thesis by blast
qed

text \<open>
  Claim C9. When store and render buffer are in step (as they are in every state the
  controller reaches), the store's vertical extent is a pair of integers \<open>lo \<le> hi\<close> that
  bounds every record's \<open>gy\<close>, and after the recolour pass the colour slot of every live
  record holds the HSL triple whose hue, saturation and lightness are each
  \<open>bottom + (top - bottom) * t\<close>, with \<open>t = (gy - lo) / (hi - lo)\<close>, or \<open>t = 1/2\<close> when
  \<open>hi - lo = 0\<close>; all three components are finite numbers.
\<close>
theorem recolor_gradient:
  assumes s: "sync_inv g r"
  shows "\<exists>lo hi. getYRange g = (Num (of_int lo), Num (of_int hi)) \<and>
     (\<forall>b \<in> set (boxes r).
        lo \<le> gy b \<and> gy b \<le> hi \<and>
        getColorAt (instancedMesh (updateAllColors r g)) (instanceIndex b) =
          Some (let t = (if hi - lo = 0 then 1 / 2
                         else (real_of_int (gy b) - of_int lo) / (of_int hi - of_int lo));
                    pal = palette r
                in HSL (Num (fst (bottomHSL pal) + (fst (topHSL pal) - fst (bottomHSL pal)) * t))
                       (Num (fst (snd (bottomHSL pal))
                             + (fst (snd (topHSL pal)) - fst (snd (bottomHSL pal))) * t))
                       (Num (snd (snd (bottomHSL pal))
                             + (snd (snd (topHSL pal)) - snd (snd (bottomHSL pal))) * t))))"
proof -
  have ri: "render_inv r" and gi: "grid_inv g (map cell_of (boxes r))"
    using s by (simp_all add: sync_inv_def)
  obtain lo hi where yr: "getYRange g = (Num (of_int lo), Num (of_int hi))"
    and bnd: "\<forall>c \<in> set (map cell_of (boxes r)). lo \<le> cell_y c \<and> cell_y c \<le> hi"
    using grid_inv_finite_range [OF gi] by blast
  have di: "distinct (map instanceIndex (boxes r))"
    and rng: "\<forall>b \<in> set (boxes r). 0 \<le> instanceIndex b \<and> instanceIndex b < capacity (instancedMesh r)"
    using ri unfolding render_inv_def by fastforce+
  have "lo \<le> gy b \<and> gy b \<le> hi \<and>
        getColorAt (instancedMesh (updateAllColors r g)) (instanceIndex b) =
          Some (let t = (if hi - lo = 0 then 1 / 2
                         else (real_of_int (gy b) - of_int lo) / (of_int hi - of_int lo));
                    pal = palette r
                in HSL (Num (fst (bottomHSL pal) + (fst (topHSL pal) - fst (bottomHSL pal)) * t))
                       (Num (fst (snd (bottomHSL pal))
                             + (fst (snd (topHSL pal)) - fst (snd (bottomHSL pal))) * t))
                       (Num (snd (snd (bottomHSL pal))
                             + (snd (snd (topHSL pal)) - snd (snd (bottomHSL pal))) * t)))"
    if b: "b \<in> set (boxes r)" for b
  proof -
    have "cell_y (cell_of b) = gy b" by (simp add: cell_y_def cell_of_def)
    then have g: "lo \<le> gy b \<and> gy b \<le> hi" using bnd b by force
    have "getColorAt (instancedMesh (updateAllColors r g)) (instanceIndex b)
            = Some (gradient_color (palette r) (Num (of_int lo))
                      (js_sub (Num (of_int hi)) (Num (of_int lo))) (gy b))"
      using fold_setColorAt_get [OF di rng b,
          of "\<lambda>box. Some (gradient_color (palette r) (Num (of_int lo))
                      (js_sub (Num (of_int hi)) (Num (of_int lo))) (gy box))"]
      by (simp add: updateAllColors_def yr)
    then show ?thesis
      using g by (simp only: gradient_color_finite) (simp add: Let_def)
  qed
  then show ?thesis using yr by blast
qed

lemma add_fst_snd: "\<not> fst (add g x y z) \<Longrightarrow> snd (add g x y z) = g"
  by (auto simp: add_def Let_def split: if_splits)

lemma remove_fst_snd: "\<not> fst (remove g x y z) \<Longrightarrow> snd (remove g x y z) = g"
  by (auto simp: remove_def Let_def split: if_splits)

lemma trySpawnBox_fields:
  "config (trySpawnBox c x y z p) = config c"
  "performanceWarning (trySpawnBox c x y z p) = performanceWarning c"
  "eraseMode (trySpawnBox c x y z p) = eraseMode c"
  "isDrawing (trySpawnBox c x y z p) = isDrawing c"
  "isRotating (trySpawnBox c x y z p) = isRotating c"
  "grid (trySpawnBox c x y z p) = (if performanceWarning c then grid c else snd (add (grid c) x y z))"
  "renderer (trySpawnBox c x y z p) =
     (if performanceWarning c \<or> \<not> fst (add (grid c) x y z) then renderer c
      else map_option (\<lambda>r. addBox r (snd (add (grid c) x y z)) x y z) (renderer c))"
  "lastSpawnWorldPos (trySpawnBox c x y z p) =
     (if performanceWarning c \<or> \<not> fst (add (grid c) x y z) then lastSpawnWorldPos c else p)"
  by (cases "add (grid c) x y z"; simp add: trySpawnBox_def)+

lemma initialize_default:
  "\<exists>c0. initialize (new_Controller DEFAULT_VOXEL_BUILDER_CONFIG) = Inr c0"
  by (simp add: initialize_def new_Controller_def initialize_r_default)

lemma initialize_fields:
  assumes "initialize (new_Controller cfg) = Inr c0"
  shows "grid c0 = new_VoxelGrid (cellSize_cfg cfg) (maxBoxes cfg)"
    and "performanceWarning c0 = False" and "eraseMode c0 = False"
    and "isDrawing c0 = False" and "isRotating c0 = False"
    and "config c0 = cfg" and "lastSpawnWorldPos c0 = (0, 0, 0)"
    and "\<exists>r. renderer c0 = Some r \<and> initialize_r cfg = Inr r"
  using assms
  by (auto simp: initialize_def new_Controller_def split: sum.splits)

theorem recolor_gradient_witness:
  "\<exists>c0 r. initialize (new_Controller DEFAULT_VOXEL_BUILDER_CONFIG) = Inr c0 \<and>
     renderer (trySpawnBox (trySpawnBox c0 0 0 0 (0, 0, 0)) 0 1 0 (0, 0.45, 0)) = Some r \<and>
     sync_inv (grid (trySpawnBox (trySpawnBox c0 0 0 0 (0, 0, 0)) 0 1 0 (0, 0.45, 0))) r \<and>
     getColorAt (instancedMesh
        (updateAllColors r (grid (trySpawnBox (trySpawnBox c0 0 0 0 (0, 0, 0)) 0 1 0 (0, 0.45, 0))))) 0
       = Some (HSL (Num 0.65) (Num 0.75) (Num 0.55)) \<and>
     getColorAt (instancedMesh
        (updateAllColors r (grid (trySpawnBox (trySpawnBox c0 0 0 0 (0, 0, 0)) 0 1 0 (0, 0.45, 0))))) 1
       = Some (HSL (Num 0) (Num 0.75) (Num 0.55))"
proof -
  let ?cfg = DEFAULT_VOXEL_BUILDER_CONFIG
  obtain c0 where c0: "initialize (new_Controller ?cfg) = Inr c0"
    using initialize_default by blast
  note f = initialize_fields [OF c0]
  obtain r0 where r0: "renderer c0 = Some r0" "initialize_r ?cfg = Inr r0" using f(8) by blast
  define c2 where "c2 = trySpawnBox (trySpawnBox c0 0 0 0 (0, 0, 0)) 0 1 0 (0, 0.45, 0)"
  have inv: "ctl_inv ?cfg c2"
    unfolding c2_def using ctl_inv_initialize [OF c0] ctl_inv_trySpawnBox by blast
  then obtain r where r: "renderer c2 = Some r" and s: "sync_inv (grid c2) r"
    by (auto simp: ctl_inv_def)
  have k: "voxelKey 0 0 0 = ''0,0,0''" "voxelKey 0 1 0 = ''0,1,0''"
    by (simp_all add: voxelKey_def show_int_def show_nat.simps digit_char_def)
  have g1: "add (new_VoxelGrid 0.45 1000) 0 0 0 =
      (True, \<lparr>cellSize = 0.45, maxCells = 1000, occupied = [''0,0,0''], minY = Num 0, maxY = Num 0\<rparr>)"
    by (simp add: add_def new_VoxelGrid_def k update_extent_def)
  have g2: "add \<lparr>cellSize = 0.45, maxCells = 1000, occupied = [''0,0,0''], minY = Num 0, maxY = Num 0\<rparr> 0 1 0 =
      (True, \<lparr>cellSize = 0.45, maxCells = 1000, occupied = [''0,0,0'', ''0,1,0''], minY = Num 0, maxY = Num 1\<rparr>)"
    by (simp add: add_def k update_extent_def)
  have gc0: "grid c0 = new_VoxelGrid 0.45 1000"
    using f(1) by (simp add: DEFAULT_VOXEL_BUILDER_CONFIG_def)
  have gr: "grid c2 = \<lparr>cellSize = 0.45, maxCells = 1000, occupied = [''0,0,0'', ''0,1,0''],
                        minY = Num 0, maxY = Num 1\<rparr>"
    unfolding c2_def using g1 g2 by (simp add: trySpawnBox_fields f(2) gc0)
  have yr: "getYRange (grid c2) = (Num (of_int 0), Num (of_int 1))"
    by (simp add: gr getYRange_def)
  have rr: "r = addBox (addBox r0 (snd (add (new_VoxelGrid 0.45 1000) 0 0 0)) 0 0 0) (grid c2) 0 1 0"
    using r g1 g2 unfolding c2_def
    by (simp add: trySpawnBox_fields f(2) gc0 r0(1))
  have r0f: "boxes r0 = []" "instanceCount r0 = 0" "palette r0 = VOXEL_PALETTES ! 0"
    using r0(2) by (auto simp: initialize_r_default)
  have bx: "boxes r = [\<lparr>gx = 0, gy = 0, gz = 0, instanceIndex = 0\<rparr>,
                       \<lparr>gx = 0, gy = 1, gz = 0, instanceIndex = 1\<rparr>]"
    and pal: "palette r = VOXEL_PALETTES ! 0"
    unfolding rr by (simp_all add: r0f addBox_def Let_def)
  from recolor_gradient [OF s] obtain lo hi
    where lh: "getYRange (grid c2) = (Num (of_int lo), Num (of_int hi))"
      and cols: "\<forall>b \<in> set (boxes r).
        lo \<le> gy b \<and> gy b \<le> hi \<and>
        getColorAt (instancedMesh (updateAllColors r (grid c2))) (instanceIndex b) =
          Some (let t = (if hi - lo = 0 then 1 / 2
                         else (real_of_int (gy b) - of_int lo) / (of_int hi - of_int lo));
                    pal = palette r
                in HSL (Num (fst (bottomHSL pal) + (fst (topHSL pal) - fst (bottomHSL pal)) * t))
                       (Num (fst (snd (bottomHSL pal))
                             + (fst (snd (topHSL pal)) - fst (snd (bottomHSL pal))) * t))
                       (Num (snd (snd (bottomHSL pal))
                             + (snd (snd (topHSL pal)) - snd (snd (bottomHSL pal))) * t)))"
    by blast
  have lo: "lo = 0" and hi: "hi = 1" using lh yr by simp_all
  have "getColorAt (instancedMesh (updateAllColors r (grid c2))) 0
          = Some (HSL (Num 0.65) (Num 0.75) (Num 0.55))"
    and "getColorAt (instancedMesh (updateAllColors r (grid c2))) 1
          = Some (HSL (Num 0) (Num 0.75) (Num 0.55))"
    using cols unfolding bx lo hi by (simp_all add: pal VOXEL_PALETTES_def Let_def)
  then show ?thesis using c0 r s unfolding c2_def by blast
qed

section \<open>Depth from hand scale\<close>


lemma computeHandScale_horizontal:
  assumes "nth_opt lm WRIST = Some (wx, wy, wz)" "nth_opt lm MIDDLE_FINGER_MCP = Some (mx, wy, mz)"
  shows "computeHandScale lm = \<bar>wx - mx\<bar>"
  using assms by (simp add: computeHandScale_def Let_def)

text \<open>
  Claim C7. When the right hand's landmarks give a positive hand scale: at gesture START
  the estimator sets the smoothed scale to the raw scale, captures it as the reference
  scale and emits \<open>z = 0\<close>; while ACTIVE with a positive reference scale it blends the raw
  scale into the smoothed one (weight 0.3, or takes the raw scale when no smoothed scale
  is held), keeps the reference, and emits
  \<open>z = (smoothedScale - referenceScale) / referenceScale * 12\<close>. Scenario B: a START at
  scale 0.2 gives reference 0.2 and \<open>z = 0\<close>; when the next frame brings the smoothed scale
  to 0.24, the normalised delta is 0.2 and \<open>z = 2.4\<close>.
\<close>
theorem depth_estimate:
  assumes raw: "0 < computeHandScale lm"
  shows "(case computeDepthCorrectedPosition c data (Some lm) STARTED of
            (pos, c') \<Rightarrow>
              pos = (fst (position data), fst (snd (position data)), 0) \<and>
              smoothedHandScale c' = computeHandScale lm \<and>
              referenceHandScale c' = smoothedHandScale c')
     \<and> (0 < referenceHandScale c \<longrightarrow>
          (case computeDepthCorrectedPosition c data (Some lm) ACTIVE of
             (pos, c') \<Rightarrow>
               referenceHandScale c' = referenceHandScale c \<and>
               smoothedHandScale c' =
                 (if smoothedHandScale c = 0 then computeHandScale lm
                  else 0.3 * computeHandScale lm + (1 - 0.3) * smoothedHandScale c) \<and>
               pos = (fst (position data), fst (snd (position data)),
                      (smoothedHandScale c' - referenceHandScale c') / referenceHandScale c' * 12)))
     \<and> (computeHandScale lm = 0.2 \<longrightarrow>
          (\<forall>lm2 data2. computeHandScale lm2 = 1 / 3 \<longrightarrow>
             (case computeDepthCorrectedPosition c data (Some lm) STARTED of
                (p1, c1) \<Rightarrow>
                  snd (snd p1) = 0 \<and> smoothedHandScale c1 = 0.2 \<and> referenceHandScale c1 = 0.2 \<and>
                  (case computeDepthCorrectedPosition c1 data2 (Some lm2) ACTIVE of
                     (p2, c2) \<Rightarrow>
                       smoothedHandScale c2 = 0.24 \<and> referenceHandScale c2 = 0.2 \<and>
                       (smoothedHandScale c2 - referenceHandScale c2) / referenceHandScale c2 = 0.2 \<and>
                       snd (snd p2) = 2.4))))"
proof (intro conjI)
  show "case computeDepthCorrectedPosition c data (Some lm) STARTED of
            (pos, c') \<Rightarrow>
              pos = (fst (position data), fst (snd (position data)), 0) \<and>
              smoothedHandScale c' = computeHandScale lm \<and>
              referenceHandScale c' = smoothedHandScale c'"
    using raw by (simp add: computeDepthCorrectedPosition_def Let_def)
  show "0 < referenceHandScale c \<longrightarrow>
          (case computeDepthCorrectedPosition c data (Some lm) ACTIVE of
             (pos, c') \<Rightarrow>
               referenceHandScale c' = referenceHandScale c \<and>
               smoothedHandScale c' =
                 (if smoothedHandScale c = 0 then computeHandScale lm
                  else 0.3 * computeHandScale lm + (1 - 0.3) * smoothedHandScale c) \<and>
               pos = (fst (position data), fst (snd (position data)),
                      (smoothedHandScale c' - referenceHandScale c') / referenceHandScale c' * 12))"
    using raw
    by (simp add: computeDepthCorrectedPosition_def Let_def DEPTH_SMOOTHING_FACTOR_def
        DEPTH_SCALE_SENSITIVITY_def)
  show "computeHandScale lm = 0.2 \<longrightarrow>
          (\<forall>lm2 data2. computeHandScale lm2 = 1 / 3 \<longrightarrow>
             (case computeDepthCorrectedPosition c data (Some lm) STARTED of
                (p1, c1) \<Rightarrow>
                  snd (snd p1) = 0 \<and> smoothedHandScale c1 = 0.2 \<and> referenceHandScale c1 = 0.2 \<and>
                  (case computeDepthCorrectedPosition c1 data2 (Some lm2) ACTIVE of
                     (p2, c2) \<Rightarrow>
                       smoothedHandScale c2 = 0.24 \<and> referenceHandScale c2 = 0.2 \<and>
                       (smoothedHandScale c2 - referenceHandScale c2) / referenceHandScale c2 = 0.2 \<and>
                       snd (snd p2) = 2.4)))"
  proof (intro impI allI)
    fix lm2 :: "vec3 list" and data2 :: GestureEvent
    assume h1: "computeHandScale lm = 0.2" and h2: "computeHandScale lm2 = 1 / 3"
    have e1: "computeDepthCorrectedPosition c data (Some lm) STARTED =
        ((fst (position data), fst (snd (position data)), 0),
         c\<lparr>smoothedHandScale := 0.2, referenceHandScale := 0.2\<rparr>)"
      by (simp add: computeDepthCorrectedPosition_def Let_def h1)
    have e2: "computeDepthCorrectedPosition
                (c\<lparr>smoothedHandScale := 0.2, referenceHandScale := 0.2\<rparr>) data2 (Some lm2) ACTIVE =
        ((fst (position data2), fst (snd (position data2)), 2.4),
         c\<lparr>smoothedHandScale := 0.24, referenceHandScale := 0.2\<rparr>)"
      by (simp add: computeDepthCorrectedPosition_def Let_def h2 DEPTH_SMOOTHING_FACTOR_def
          DEPTH_SCALE_SENSITIVITY_def)
    show "case computeDepthCorrectedPosition c data (Some lm) STARTED of
                (p1, c1) \<Rightarrow>
                  snd (snd p1) = 0 \<and> smoothedHandScale c1 = 0.2 \<and> referenceHandScale c1 = 0.2 \<and>
                  (case computeDepthCorrectedPosition c1 data2 (Some lm2) ACTIVE of
                     (p2, c2) \<Rightarrow>
                       smoothedHandScale c2 = 0.24 \<and> referenceHandScale c2 = 0.2 \<and>
                       (smoothedHandScale c2 - referenceHandScale c2) / referenceHandScale c2 = 0.2 \<and>
                       snd (snd p2) = 2.4)"
      unfolding e1 prod.case e2 by simp
  qed
qed

theorem depth_estimate_witness:
  "0 < computeHandScale (replicate 9 (0.5, 0.5, 0) @ [(0.7, 0.5, 0)]) \<and>
   computeHandScale (replicate 9 (0.5, 0.5, 0) @ [(0.7, 0.5, 0)]) = 0.2 \<and>
   computeHandScale (replicate 9 (0, 0.5, 0) @ [(1 / 3, 0.5, 0)]) = 1 / 3 \<and>
   fst (computeDepthCorrectedPosition (new_Controller DEFAULT_VOXEL_BUILDER_CONFIG)
          \<lparr>ev_type = PINCH, ev_state = STARTED, handedness = Right, position = (1, 2, 3),
           normalizedPosition = (0.5, 0.5)\<rparr>
          (Some (replicate 9 (0.5, 0.5, 0) @ [(0.7, 0.5, 0)])) STARTED) = (1, 2, 0) \<and>
   snd (snd (fst (computeDepthCorrectedPosition
          (snd (computeDepthCorrectedPosition (new_Controller DEFAULT_VOXEL_BUILDER_CONFIG)
             \<lparr>ev_type = PINCH, ev_state = STARTED, handedness = Right, position = (1, 2, 3),
              normalizedPosition = (0.5, 0.5)\<rparr>
             (Some (replicate 9 (0.5, 0.5, 0) @ [(0.7, 0.5, 0)])) STARTED))
          \<lparr>ev_type = PINCH, ev_state = ACTIVE, handedness = Right, position = (1, 2, 3),
           normalizedPosition = (0.5, 0.5)\<rparr>
          (Some (replicate 9 (0, 0.5, 0) @ [(1 / 3, 0.5, 0)])) ACTIVE))) = 2.4"
proof -
  let ?lm = "replicate 9 (0.5, 0.5, 0) @ [(0.7, 0.5, 0 :: real)]"
  let ?lm2 = "replicate 9 (0, 0.5, 0) @ [(1 / 3, 0.5, 0 :: real)]"
  let ?c = "new_Controller DEFAULT_VOXEL_BUILDER_CONFIG"
  let ?d1 = "\<lparr>ev_type = PINCH, ev_state = STARTED, handedness = Right, position = (1, 2, 3),
              normalizedPosition = (0.5, 0.5)\<rparr>"
  let ?d2 = "\<lparr>ev_type = PINCH, ev_state = ACTIVE, handedness = Right, position = (1, 2, 3),
              normalizedPosition = (0.5, 0.5)\<rparr>"
  have n1: "nth_opt ?lm WRIST = Some (0.5, 0.5, 0)" "nth_opt ?lm MIDDLE_FINGER_MCP = Some (0.7, 0.5, 0)"
    by (simp_all add: nth_opt_def WRIST_def MIDDLE_FINGER_MCP_def nth_append
        numeral_eq_Suc)
  have n2: "nth_opt ?lm2 WRIST = Some (0, 0.5, 0)" "nth_opt ?lm2 MIDDLE_FINGER_MCP = Some (1 / 3, 0.5, 0)"
    by (simp_all add: nth_opt_def WRIST_def MIDDLE_FINGER_MCP_def nth_append
        numeral_eq_Suc)
  have s1: "computeHandScale ?lm = 0.2"
    using computeHandScale_horizontal [OF n1] by simp
  have s2: "computeHandScale ?lm2 = 1 / 3"
    using computeHandScale_horizontal [OF n2] by simp
  have pos: "0 < computeHandScale ?lm" using s1 by simp
  note t = depth_estimate [OF pos, where c = ?c and data = ?d1]
  obtain p1 c1 where e1: "computeDepthCorrectedPosition ?c ?d1 (Some ?lm) STARTED = (p1, c1)"
    by (cases "computeDepthCorrectedPosition ?c ?d1 (Some ?lm) STARTED")
  obtain p2 c2 where e2: "computeDepthCorrectedPosition c1 ?d2 (Some ?lm2) ACTIVE = (p2, c2)"
    by (cases "computeDepthCorrectedPosition c1 ?d2 (Some ?lm2) ACTIVE")
  have a: "p1 = (1, 2, 0)" using t [THEN conjunct1] e1 by simp
  note sc0 = t [THEN conjunct2, THEN conjunct2, THEN mp, OF s1]
  note sc1 = spec [OF sc0, where x = ?lm2]
  note sc2 = spec [OF sc1, where x = ?d2]
  note sc = sc2 [THEN mp, OF s2]
  have "snd (snd p2) = 2.4"
    using sc unfolding e1 prod.case e2 by blast
  then show ?thesis
    using pos s1 s2 a e1 e2 by simp
qed

section \<open>The reference position of the spacing gate\<close>


lemma tryEraseBox_frame:
  assumes "tryEraseBox c x y z = Inr c'"
  shows "lastSpawnWorldPos c' = lastSpawnWorldPos c" "eraseMode c' = eraseMode c"
    "performanceWarning c' = performanceWarning c" "config c' = config c"
    "isDrawing c' = isDrawing c" "isRotating c' = isRotating c"
  using assms
  by (auto simp: tryEraseBox_def split: prod.splits if_splits option.splits sum.splits)

lemma endDrawing_frame [simp]:
  "lastSpawnWorldPos (endDrawing c) = lastSpawnWorldPos c"
  "eraseMode (endDrawing c) = eraseMode c"
  "isRotating (endDrawing c) = isRotating c"
  "performanceWarning (endDrawing c) = performanceWarning c"
  "config (endDrawing c) = config c"
  "grid (endDrawing c) = grid c"
  "isDrawing (endDrawing c) = False"
  by (simp_all add: endDrawing_def)

lemma handleRightPinch_ACTIVE:
  assumes "worldToGrid (grid c) (case renderer c of None \<Rightarrow> wp | Some r \<Rightarrow> u (rotation r) wp) = Some gp"
  shows "handleRightPinch u c ACTIVE wp =
     (let localPos = (case renderer c of None \<Rightarrow> wp | Some r \<Rightarrow> u (rotation r) wp);
          snapped = gridToWorld (grid c) gp;
          c1 = c\<lparr>renderer := map_option (\<lambda>r. updateGhostPreview r snapped True) (renderer c)\<rparr>
      in if spawnDistance (config c) \<le> distanceTo localPos (lastSpawnWorldPos c)
         then (if eraseMode c then tryEraseBox c1 (gx gp) (gy gp) (gz gp)
               else Inr (trySpawnBox c1 (gx gp) (gy gp) (gz gp) snapped))
         else Inr c1)"
  using assms by (simp add: handleRightPinch_def Let_def place_or_erase_def)

lemma handleRightPinch_erase_frame:
  assumes e: "eraseMode c" and r: "handleRightPinch u c st wp = Inr c'"
  shows "lastSpawnWorldPos c' = lastSpawnWorldPos c \<and> eraseMode c'"
proof (cases st)
  case ENDED
  then show ?thesis using e r by (auto simp: handleRightPinch_def)
next
  case STARTED
  then show ?thesis
    using e r tryEraseBox_frame(1,2)
    by (auto simp: handleRightPinch_def Let_def place_or_erase_def split: option.splits)
next
  case ACTIVE
  then show ?thesis
    using e r tryEraseBox_frame(1,2)
    by (auto simp: handleRightPinch_def Let_def place_or_erase_def split: option.splits if_splits)
qed

lemma drag_erase_frame:
  "eraseMode c \<Longrightarrow> drag u c evs = Inr c' \<Longrightarrow> lastSpawnWorldPos c' = lastSpawnWorldPos c \<and> eraseMode c'"
proof (induction evs arbitrary: c)
  case Nil
  then show ?case by simp
next
  case (Cons ev evs)
  obtain st wp where ev: "ev = (st, wp)" by (cases ev)
  from Cons.prems(2) obtain c1 where c1: "handleRightPinch u c st wp = Inr c1"
    and rest: "drag u c1 evs = Inr c'"
    by (auto simp: ev split: sum.splits)
  have h: "lastSpawnWorldPos c1 = lastSpawnWorldPos c \<and> eraseMode c1"
    using handleRightPinch_erase_frame [OF Cons.prems(1) c1] .
  then show ?case using Cons.IH [OF _ rest] by simp
qed

lemma ctl_inv_drag:
  "ctl_inv cfg c \<Longrightarrow> cellSize_cfg cfg \<noteq> 0 \<Longrightarrow> \<exists>c'. drag u c evs = Inr c' \<and> ctl_inv cfg c'"
proof (induction evs arbitrary: c)
  case Nil
  then show ?case by simp
next
  case (Cons ev evs)
  obtain st wp where ev: "ev = (st, wp)" by (cases ev)
  obtain c1 where c1: "handleRightPinch u c st wp = Inr c1" "ctl_inv cfg c1"
    using ctl_inv_handleRightPinch [OF Cons.prems(1), of u st wp] Cons.prems(2)
    by (cases "handleRightPinch u c st wp") auto
  from Cons.IH [OF c1(2) Cons.prems(2)] show ?case using c1(1) ev by simp
qed

lemma ctl_inv_initialized_default:
  "ctl_inv DEFAULT_VOXEL_BUILDER_CONFIG (initialized DEFAULT_VOXEL_BUILDER_CONFIG)"
proof -
  obtain c0 where c0: "initialize (new_Controller DEFAULT_VOXEL_BUILDER_CONFIG) = Inr c0"
    using initialize_default by blast
  then have "initialized DEFAULT_VOXEL_BUILDER_CONFIG = c0" by (simp add: initialized_def)
  then show ?thesis using ctl_inv_initialize [OF c0] by simp
qed



section \<open>The performance warning\<close>


lemma fps_update_fields:
  "grid (fps_update c n) = grid c"
  "config (fps_update c n) = config c"
  "renderer (fps_update c n) = renderer c"
  "currentFps (fps_update c n) = n"
  "lowFpsAccumulator (fps_update c n) =
     (if n < fpsWarningThreshold (config c) \<and> 0 < count (grid c)
      then lowFpsAccumulator c + 1 else 0)"
  "performanceWarning (fps_update c n) \<longleftrightarrow>
     performanceWarning c \<or>
     (n < fpsWarningThreshold (config c) \<and> 0 < count (grid c) \<and>
      fpsWarningDurationSec (config c) \<le> lowFpsAccumulator c + 1)"
  by (auto simp: fps_update_def updatePerformanceWarning_def Let_def)

lemma trySpawnBox_blocked: "performanceWarning c \<Longrightarrow> trySpawnBox c x y z p = c"
  by (simp add: trySpawnBox_def)

lemma tryEraseBox_ignores_warning:
  "tryEraseBox (c\<lparr>performanceWarning := b\<rparr>) x y z =
     map_sum id (\<lambda>c'. c'\<lparr>performanceWarning := b\<rparr>) (tryEraseBox c x y z)"
  by (simp add: tryEraseBox_def split: prod.splits option.splits sum.splits)

lemma handleLeftPinch_ignores_warning:
  "handleLeftPinch (c\<lparr>performanceWarning := b\<rparr>) st ev =
     (handleLeftPinch c st ev)\<lparr>performanceWarning := b\<rparr>"
  by (simp add: handleLeftPinch_def Let_def)

lemma tryEraseBox_grid:
  "tryEraseBox c x y z = Inr c' \<Longrightarrow> grid c' = snd (remove (grid c) x y z)"
  by (auto simp: tryEraseBox_def split: prod.splits if_splits option.splits sum.splits)

lemma erase_works:
  assumes inv: "ctl_inv cfg c" and h: "has (grid c) x y z"
  shows "\<exists>c'. tryEraseBox c x y z = Inr c' \<and> \<not> has (grid c') x y z \<and>
           count (grid c') = count (grid c) - 1 \<and>
           performanceWarning c' = performanceWarning c"
proof -
  obtain c' where c': "tryEraseBox c x y z = Inr c'" using ctl_inv_tryEraseBox [OF inv] by blast
  obtain r where "sync_inv (grid c) r" using inv by (auto simp: ctl_inv_def)
  then have gi: "grid_inv (grid c) (map cell_of (boxes r))" by (simp add: sync_inv_def)
  let ?cs = "map cell_of (boxes r)"
  have g': "grid_inv (grid c') (remove1 (x, y, z) ?cs)"
    using grid_inv_remove_ok(2) [OF gi h] tryEraseBox_grid [OF c'] by simp
  have d: "distinct ?cs" using gi by (simp add: grid_inv_def)
  have mem: "(x, y, z) \<in> set ?cs" using grid_inv_has [OF gi] h by simp
  have nh: "\<not> has (grid c') x y z" using grid_inv_has [OF g'] d by simp
  have "0 < length ?cs" using mem by (cases ?cs) auto
  then have "int (length ?cs - 1) = int (length ?cs) - 1" by arith
  moreover have "length (remove1 (x, y, z) ?cs) = length ?cs - 1"
    using mem by (simp only: length_remove1 if_True)
  ultimately have "int (length (remove1 (x, y, z) ?cs)) = int (length ?cs) - 1"
    by simp
  then have cnt: "count (grid c') = count (grid c) - 1"
    using grid_inv_count [OF g'] grid_inv_count [OF gi] by simp
  show ?thesis using c' nh cnt tryEraseBox_frame(3) [OF c'] by blast
qed

lemma reset_fields:
  "performanceWarning (reset c) = False" "lowFpsAccumulator (reset c) = 0"
  "grid (reset c) = clear (grid c)" "isDrawing (reset c) = False"
  "isRotating (reset c) = False" "eraseMode (reset c) = False"
  by (simp_all add: reset_def Let_def)

lemma place_after_reset:
  assumes inv: "ctl_inv cfg c" and pos: "0 < maxBoxes cfg"
  shows "has (grid (trySpawnBox (reset c) x y z p)) x y z"
proof -
  let ?g = "clear (grid c)"
  have gi: "grid_inv ?g []" by (rule grid_inv_clear)
  have mc: "maxCells ?g = maxBoxes cfg" using inv by (simp add: ctl_inv_def clear_def)
  have lt: "count ?g < maxCells ?g" using mc pos by (simp add: count_def clear_def)
  have nh: "\<not> has ?g x y z" using grid_inv_has [OF gi] by simp
  have "grid_inv (snd (add ?g x y z)) ([] @ [(x, y, z)])"
    using grid_inv_add_ok(2) [OF gi lt nh] .
  then have "has (snd (add ?g x y z)) x y z" using grid_inv_has by fastforce
  then show ?thesis by (simp add: trySpawnBox_fields reset_fields)
qed

lemma warned_state_facts:
  "performanceWarning warned_state"
  "grid warned_state = \<lparr>cellSize = 0.45, maxCells = 1000, occupied = [''0,0,0''],
                         minY = Num 0, maxY = Num 0\<rparr>"
  "config warned_state = DEFAULT_VOXEL_BUILDER_CONFIG"
  "ctl_inv DEFAULT_VOXEL_BUILDER_CONFIG warned_state"
proof -
  let ?cfg = DEFAULT_VOXEL_BUILDER_CONFIG
  obtain c0 where c0: "initialize (new_Controller ?cfg) = Inr c0"
    using initialize_default by blast
  then have ic: "initialized ?cfg = c0" by (simp add: initialized_def)
  note f = initialize_fields [OF c0]
  have acc: "lowFpsAccumulator c0 = 0"
    using c0 by (auto simp: initialize_def new_Controller_def split: sum.splits)
  have k: "voxelKey 0 0 0 = ''0,0,0''"
    by (simp add: voxelKey_def show_int_def show_nat.simps digit_char_def)
  have g1: "add (new_VoxelGrid 0.45 1000) 0 0 0 =
      (True, \<lparr>cellSize = 0.45, maxCells = 1000, occupied = [''0,0,0''], minY = Num 0, maxY = Num 0\<rparr>)"
    by (simp add: add_def new_VoxelGrid_def k update_extent_def)
  let ?c1 = "trySpawnBox c0 0 0 0 (0, 0, 0)"
  have gr: "grid ?c1 = \<lparr>cellSize = 0.45, maxCells = 1000, occupied = [''0,0,0''],
                          minY = Num 0, maxY = Num 0\<rparr>"
    using g1 by (simp add: trySpawnBox_fields f DEFAULT_VOXEL_BUILDER_CONFIG_def)
  have cnt: "count (grid ?c1) = 1" by (simp add: gr count_def)
  have c1f: "lowFpsAccumulator ?c1 = 0" "config ?c1 = ?cfg" "performanceWarning ?c1 = False"
    using acc f by (cases "add (grid c0) 0 0 0"; simp add: trySpawnBox_def)+
  show "performanceWarning warned_state"
    unfolding warned_state_def ic
    using cnt c1f by (simp add: fps_update_fields DEFAULT_VOXEL_BUILDER_CONFIG_def)
  show "grid warned_state = \<lparr>cellSize = 0.45, maxCells = 1000, occupied = [''0,0,0''],
                         minY = Num 0, maxY = Num 0\<rparr>"
    unfolding warned_state_def ic using gr by (simp add: fps_update_fields)
  show "config warned_state = ?cfg"
    unfolding warned_state_def ic using c1f by (simp add: fps_update_fields)
  show "ctl_inv ?cfg warned_state"
    unfolding warned_state_def
    by (intro ctl_inv_fps_update ctl_inv_trySpawnBox ctl_inv_initialized_default)
qed




section \<open>Frames without hands\<close>


lemma processHands_no_hands:
  "processHands u c None evs dt = Inr (endDrawing (c\<lparr>lastHandCount := 0\<rparr>))"
  "landmarks res = [] \<Longrightarrow>
     processHands u c (Some res) evs dt = Inr (endDrawing (c\<lparr>lastHandCount := 0\<rparr>))"
  by (simp_all add: processHands_def)

lemma processHands_left_grab:
  "\<exists>c1. processHands u c (Some two_hands) left_grab_events dt = Inr c1 \<and>
         isRotating c1 \<and> eraseMode c1"
  by (simp add: processHands_def two_hands_def left_grab_events_def process_event_def
      handleLeftPinch_def handleLeftFist_def Let_def endDrawing_def)

lemma processHands_no_events:
  "\<exists>c3. processHands u c (Some two_hands) [] dt = Inr c3 \<and>
         \<not> isRotating c3 \<and> \<not> eraseMode c3 \<and> \<not> isDrawing c3"
  by (simp add: processHands_def two_hands_def Let_def endDrawing_def)

text \<open>
  Claim C6, on the code. A frame with no hands (no result, or a result with no landmarks)
  returns after \<open>endDrawing\<close>: the drawing flag is cleared, but \<open>isRotating\<close> and
  \<open>eraseMode\<close> are left as they were. After a frame in which the left hand starts a
  pinch and a fist, a frame with no hands leaves both set; a frame with hands and no
  events, which runs the end-of-frame checks, clears them.
\<close>
theorem no_hands_frame_keeps_rotating_and_erase:
  "processHands u c None evs dt = Inr (endDrawing (c\<lparr>lastHandCount := 0\<rparr>))
   \<and> processHands u c (Some \<lparr>landmarks = [], handednessStr = hs\<rparr>) evs dt
       = Inr (endDrawing (c\<lparr>lastHandCount := 0\<rparr>))
   \<and> isDrawing (endDrawing (c\<lparr>lastHandCount := 0\<rparr>)) = False
   \<and> isRotating (endDrawing (c\<lparr>lastHandCount := 0\<rparr>)) = isRotating c
   \<and> eraseMode (endDrawing (c\<lparr>lastHandCount := 0\<rparr>)) = eraseMode c
   \<and> (\<exists>c1 c2 c3.
         processHands u c (Some two_hands) left_grab_events dt = Inr c1 \<and>
         isRotating c1 \<and> eraseMode c1 \<and>
         processHands u c1 None [] dt = Inr c2 \<and>
         isRotating c2 \<and> eraseMode c2 \<and> \<not> isDrawing c2 \<and> lastHandCount c2 = 0 \<and>
         processHands u c1 (Some two_hands) [] dt = Inr c3 \<and>
         \<not> isRotating c3 \<and> \<not> eraseMode c3 \<and> \<not> isDrawing c3)"
proof -
  obtain c1 where c1: "processHands u c (Some two_hands) left_grab_events dt = Inr c1"
    "isRotating c1" "eraseMode c1"
    using processHands_left_grab by blast
  obtain c3 where c3: "processHands u c1 (Some two_hands) [] dt = Inr c3"
    "\<not> isRotating c3" "\<not> eraseMode c3" "\<not> isDrawing c3"
    using processHands_no_events by blast
  let ?c2 = "endDrawing (c1\<lparr>lastHandCount := 0\<rparr>)"
  have c2: "processHands u c1 None [] dt = Inr ?c2" by (rule processHands_no_hands(1))
  have f: "isRotating ?c2" "eraseMode ?c2" "\<not> isDrawing ?c2" "lastHandCount ?c2 = 0"
    using c1(2,3) by (simp_all add: endDrawing_def)
  have "\<exists>c1 c2 c3.
         processHands u c (Some two_hands) left_grab_events dt = Inr c1 \<and>
         isRotating c1 \<and> eraseMode c1 \<and>
         processHands u c1 None [] dt = Inr c2 \<and>
         isRotating c2 \<and> eraseMode c2 \<and> \<not> isDrawing c2 \<and> lastHandCount c2 = 0 \<and>
         processHands u c1 (Some two_hands) [] dt = Inr c3 \<and>
         \<not> isRotating c3 \<and> \<not> eraseMode c3 \<and> \<not> isDrawing c3"
    using c1 c2 f c3 by blast
  then show ?thesis
    by (simp add: processHands_no_hands)
qed

end
